theory Spec2Isabelle
  imports Complex_Main
begin

section \<open>Common conventions\<close>

text \<open>
  Python floats are modelled as HOL reals (exact arithmetic). A floating-point operation
  whose numpy result would be \<open>inf\<close> or \<open>nan\<close> (division of a numpy float by zero,
  square root of a negative number) has no real value; the model returns the marker
  \<open>NonFinite\<close> there instead of inventing one. Where a result depends on the
  rounding of binary floating point (\<open>Simulation.run\<close>), the float operations are
  parameters of the model. Python exceptions are the other
  constructors of \<open>error\<close>. A function that can raise returns \<open>error + 'a\<close> with
  \<open>Inl\<close> the exception; a method that also mutates its object returns the pair of that
  result and the state at the moment of the return or raise.
\<close>

datatype error =
    ValueError
  | IndexError
  | TypeError
  | RuntimeError
  | FileNotFoundError
  | ZeroDivisionError
  | OverflowError
  | InvalidOperation
  | NonFinite

definition err_bind :: "error + 'a \<Rightarrow> ('a \<Rightarrow> error + 'b) \<Rightarrow> error + 'b" where
  "err_bind r f = (case r of Inl e \<Rightarrow> Inl e | Inr v \<Rightarrow> f v)"

text \<open>Reading \<open>xs[i]\<close> with a non-negative index: out of range raises IndexError.\<close>

definition py_index :: "'a list \<Rightarrow> nat \<Rightarrow> error + 'a" where
  "py_index xs i = (if i < length xs then Inr (xs ! i) else Inl IndexError)"

text \<open>Reading \<open>xs[-1]\<close>.\<close>

definition py_last :: "'a list \<Rightarrow> error + 'a" where
  "py_last xs = (if xs = [] then Inl IndexError else Inr (last xs))"

text \<open>The slice \<open>xs[k:]\<close>; a negative start counts from the end and is clipped at 0.\<close>

definition py_slice_from :: "'a list \<Rightarrow> int \<Rightarrow> 'a list" where
  "py_slice_from xs k =
     (if 0 \<le> k then drop (nat k) xs
      else drop (nat (max 0 (int (length xs) + k))) xs)"

text \<open>A loop that appends one computed element per iteration and stops at the first
  exception.\<close>

fun collect :: "(error + 'a) list \<Rightarrow> error + 'a list" where
  "collect [] = Inr []"
| "collect (Inl e # rs) = Inl e"
| "collect (Inr v # rs) = (case collect rs of Inl e \<Rightarrow> Inl e | Inr vs \<Rightarrow> Inr (v # vs))"

text \<open>\<open>int(x)\<close> on a finite float truncates towards zero.\<close>

definition py_int :: "real \<Rightarrow> int" where
  "py_int x = (if 0 \<le> x then \<lfloor>x\<rfloor> else \<lceil>x\<rceil>)"

text \<open>Rounding to the nearest integer, ties to the even one (Python's \<open>round\<close>, numpy's
  \<open>rint\<close>), and rounding to \<open>d\<close> decimal places built on it.\<close>

definition round_half_even :: "real \<Rightarrow> int" where
  "round_half_even y =
     (let f = \<lfloor>y\<rfloor>; d = y - of_int f
      in if d < 1 / 2 then f
         else if 1 / 2 < d then f + 1
         else if even f then f else f + 1)"

definition py_round :: "real \<Rightarrow> nat \<Rightarrow> real" where
  "py_round x d = of_int (round_half_even (x * 10 ^ d)) / 10 ^ d"

text \<open>\<open>s.startswith(p)\<close>.\<close>

definition startswith :: "string \<Rightarrow> string \<Rightarrow> bool" where
  "startswith s p = (take (length p) s = p)"

text \<open>\<open>str(n)\<close> for an integer: decimal digits, with a minus sign when negative.\<close>

definition digit_char :: "nat \<Rightarrow> char" where
  "digit_char d = ''0123456789'' ! d"

function str_nat :: "nat \<Rightarrow> string" where
  "str_nat n = (if n < 10 then [digit_char n] else str_nat (n div 10) @ [digit_char (n mod 10)])"
  by pat_completeness auto
termination
  by (relation "measure id") auto

definition str_int :: "int \<Rightarrow> string" where
  "str_int i = (if i < 0 then CHR ''-'' # str_nat (nat (- i)) else str_nat (nat i))"

section \<open>Stage: trapezoidal weights of the lambda values\<close>

text \<open>
  \<open>Stage.lam_val_weights\<close> (stage.py): one weight per lambda value. The first branch
  reads \<open>lam_vals[i+1]\<close> before the test for the last index is reached, so a single
  lambda value raises IndexError.
\<close>

definition lam_val_weight :: "real list \<Rightarrow> nat \<Rightarrow> error + real" where
  "lam_val_weight lam_vals i =
     (if i = 0 then
        (case py_index lam_vals (i + 1) of
           Inl e \<Rightarrow> Inl e
         | Inr nxt \<Rightarrow> Inr (0.5 * (nxt - lam_vals ! i)))
      else if i = length lam_vals - 1 then
        Inr (0.5 * (lam_vals ! i - lam_vals ! (i - 1)))
      else
        Inr (0.5 * (lam_vals ! (i + 1) - lam_vals ! (i - 1))))"

definition lam_val_weights :: "real list \<Rightarrow> error + real list" where
  "lam_val_weights lam_vals =
     collect (map (lam_val_weight lam_vals) [0..<length lam_vals])"

section \<open>GradientData\<close>

text \<open>
  The attributes that \<open>GradientData.__init__\<close> (process_grads.py) stores and that the
  methods below read, one entry per lambda window. The constructor fills every list
  with \<open>n_lam\<close> entries; the three SEM lists and \<open>vars_intra\<close> are square roots and
  variances, so never negative. The methods below also keep their last result in a
  private attribute that nothing reads; those attributes are left out, and the methods
  are functions of the stored data.
\<close>

record gradient_data =
  gd_equilibrated :: bool
  n_lam :: nat
  gd_lam_vals :: "real list"
  sampling_times :: "real list"
  means :: "real list"
  sems_overall :: "real list"
  sems_intra :: "real list"
  sems_inter :: "real list"
  vars_intra :: "real list"
  stat_ineffs :: "real list"

subsection \<open>numpy operations used by the methods\<close>

text \<open>Elementwise binary operation on two one-dimensional arrays with numpy's
  broadcasting: equal lengths, or one operand of length 1; otherwise ValueError.\<close>

definition np_broadcast2 ::
  "(real \<Rightarrow> real \<Rightarrow> real) \<Rightarrow> real list \<Rightarrow> real list \<Rightarrow> error + real list" where
  "np_broadcast2 f xs ys =
     (if length xs = length ys then Inr (map2 f xs ys)
      else if length xs = 1 then Inr (map (f (hd xs)) ys)
      else if length ys = 1 then Inr (map (\<lambda>x. f x (hd ys)) xs)
      else Inl ValueError)"

text \<open>\<open>np.sqrt\<close> on an array; a negative entry would give \<open>nan\<close>.\<close>

definition np_sqrt :: "real list \<Rightarrow> error + real list" where
  "np_sqrt xs = (if list_ex (\<lambda>x. x < 0) xs then Inl NonFinite else Inr (map sqrt xs))"

text \<open>\<open>np.diff\<close>: differences of consecutive entries.\<close>

definition np_diff :: "real list \<Rightarrow> real list" where
  "np_diff xs = map2 (\<lambda>a b. b - a) (butlast xs) (tl xs)"

text \<open>\<open>np.trapz(y, x)\<close>: \<open>d = diff(x)\<close>, then \<open>(d * (y[1:] + y[:-1]) / 2).sum()\<close>.\<close>

definition np_trapz :: "real list \<Rightarrow> real list \<Rightarrow> error + real" where
  "np_trapz y x =
     err_bind (np_broadcast2 (+) (tl y) (butlast y)) (\<lambda>s.
     err_bind (np_broadcast2 (*) (np_diff x) s) (\<lambda>p.
     Inr (sum_list (map (\<lambda>v. v / 2) p))))"

text \<open>\<open>np.linspace(start, stop, num)\<close> with the end point included: a negative
  \<open>num\<close> raises ValueError, one sample is \<open>start\<close>, and for more the last sample is
  set to \<open>stop\<close>.\<close>

definition np_linspace :: "real \<Rightarrow> real \<Rightarrow> int \<Rightarrow> error + real list" where
  "np_linspace start stop num =
     (if num < 0 then Inl ValueError
      else if num = 0 then Inr []
      else if num = 1 then Inr [start]
      else Inr (map (\<lambda>i. start + real i * ((stop - start) / real_of_int (num - 1)))
                    [0..<nat num - 1] @ [stop]))"

text \<open>
  \<open>np.interp(x, xp, fp)\<close> for a scalar \<open>x\<close>. Left of the first sample point the
  result is \<open>fp[0]\<close>, right of the last it is \<open>fp[-1]\<close>. In between numpy takes the
  last index \<open>j\<close> with \<open>xp[j] \<le> x\<close> (the scan below; numpy's bisection finds the same
  index when \<open>xp\<close> is in non-decreasing order, which is the function's documented
  requirement), returns \<open>fp[j]\<close> when \<open>j\<close> is the last index or \<open>xp[j] = x\<close>, and
  interpolates linearly between \<open>j\<close> and \<open>j+1\<close> otherwise.
\<close>

fun interp_scan :: "real \<Rightarrow> (real \<times> real) list \<Rightarrow> real" where
  "interp_scan x [] = 0"
| "interp_scan x [(x0, y0)] = y0"
| "interp_scan x ((x0, y0) # (x1, y1) # ps) =
     (if x1 \<le> x then interp_scan x ((x1, y1) # ps)
      else if x0 = x then y0
      else (y1 - y0) / (x1 - x0) * (x - x0) + y0)"

definition np_interp :: "real \<Rightarrow> real list \<Rightarrow> real list \<Rightarrow> error + real" where
  "np_interp x xp fp =
     (if length xp \<noteq> length fp then Inl ValueError
      else if xp = [] then Inl ValueError
      else if x < hd xp then Inr (hd fp)
      else if last xp < x then Inr (last fp)
      else Inr (interp_scan x (zip xp fp)))"

subsection \<open>get\_sems\<close>

text \<open>
  The block average of window \<open>i\<close> as the loop of \<open>get_sems\<close> computes it: \<open>sem\<close> is
  the entry of the standardised series, the neighbours are read from
  \<open>self.sems_overall\<close>.
\<close>

definition smooth_sem :: "gradient_data \<Rightarrow> real list \<Rightarrow> nat \<Rightarrow> error + real" where
  "smooth_sem gd sems i =
     (let sem = sems ! i; max_ind = int (length sems) - 1
      in if i = 0 then
           err_bind (py_index (sems_overall gd) (i + 1)) (\<lambda>nxt. Inr ((sem + nxt) / 2))
         else if int i = max_ind then
           err_bind (py_index (sems_overall gd) (i - 1)) (\<lambda>prv. Inr ((sem + prv) / 2))
         else
           err_bind (py_index (sems_overall gd) (i + 1)) (\<lambda>nxt.
           err_bind (py_index (sems_overall gd) (i - 1)) (\<lambda>prv.
           Inr ((sem + nxt + prv) / 3))))"

text \<open>
  \<open>get_sems(origin, smoothen)\<close>. The statement \<open>sems *= np.sqrt(self.sampling_times)\<close>
  multiplies a Python list by an array: numpy builds a new array and the stored list
  is left as it was.
\<close>

definition get_sems :: "gradient_data \<Rightarrow> string \<Rightarrow> bool \<Rightarrow> error + real list" where
  "get_sems gd origin smoothen =
     (if origin \<noteq> ''inter'' \<and> origin \<noteq> ''intra'' then Inl ValueError
      else
        err_bind (np_sqrt (sampling_times gd)) (\<lambda>roots.
        err_bind (np_broadcast2 (*)
                    (if origin = ''inter'' then sems_inter gd else sems_intra gd) roots) (\<lambda>sems.
        if \<not> smoothen then Inr sems
        else collect (map (smooth_sem gd sems) [0..<length sems]))))"

subsection \<open>get\_integrated\_error\<close>

definition get_integrated_error ::
  "gradient_data \<Rightarrow> string \<Rightarrow> string \<Rightarrow> bool \<Rightarrow> error + real list" where
  "get_integrated_error gd er_type origin smoothen =
     (if er_type \<noteq> ''sem'' \<and> er_type \<noteq> ''root_var'' then Inl ValueError
      else if origin \<noteq> ''inter'' \<and> origin \<noteq> ''intra'' then Inl ValueError
      else
        err_bind (if er_type = ''sem'' then get_sems gd origin smoothen
                  else np_sqrt (vars_intra gd)) (\<lambda>y_vals.
        let x_vals = gd_lam_vals gd; n_vals = length x_vals
        in collect (map (\<lambda>i. np_trapz (take (i + 1) y_vals) (take (i + 1) x_vals))
                        [0..<n_vals])))"

subsection \<open>calculate\_optimal\_lam\_vals\<close>

text \<open>
  The number of lambda values derived from \<open>delta_er\<close>:
  \<open>int(total_error / delta_er) + 1\<close>. \<open>total_error\<close> is a numpy float, so a zero
  \<open>delta_er\<close> gives \<open>inf\<close> or \<open>nan\<close>, and \<open>int\<close> of those raises OverflowError
  or ValueError.
\<close>

definition n_lam_vals_from_delta :: "real \<Rightarrow> real \<Rightarrow> error + int" where
  "n_lam_vals_from_delta total_error delta_er =
     (if delta_er = 0 then (if total_error = 0 then Inl ValueError else Inl OverflowError)
      else Inr (py_int (total_error / delta_er) + 1))"

definition calculate_optimal_lam_vals ::
  "gradient_data \<Rightarrow> string \<Rightarrow> real option \<Rightarrow> int option \<Rightarrow> string \<Rightarrow> bool
     \<Rightarrow> error + real list" where
  "calculate_optimal_lam_vals gd er_type delta_er n_lam_vals sem_origin smoothen_sems =
     (if delta_er = None \<and> n_lam_vals = None then Inl ValueError
      else if delta_er \<noteq> None \<and> n_lam_vals \<noteq> None then Inl ValueError
      else
        err_bind (get_integrated_error gd er_type sem_origin smoothen_sems) (\<lambda>integrated_errors.
        err_bind (py_last integrated_errors) (\<lambda>total_error.
        err_bind (case n_lam_vals of
                    Some n \<Rightarrow> Inr n
                  | None \<Rightarrow> (case delta_er of
                               Some d \<Rightarrow> n_lam_vals_from_delta total_error d
                             | None \<Rightarrow> Inl TypeError)) (\<lambda>n.
        err_bind (np_linspace 0 total_error n) (\<lambda>requested_sem_vals.
        collect (map (\<lambda>requested_sem.
                   err_bind (np_interp requested_sem integrated_errors (gd_lam_vals gd))
                     (\<lambda>optimal_lam_val. Inr (py_round optimal_lam_val 3)))
                 requested_sem_vals))))))"

subsection \<open>get\_predicted\_overlap\_mat\<close>

text \<open>
  The inner loop for one \<open>base_index\<close>: it walks outward from the diagonal, dividing
  the running \<open>unnormalised_overlap\<close> by \<open>beta * delta_lam * sqrt(av_var)\<close> at every
  step but the first, and yields the entries of columns \<open>base_index + i\<close> for the
  \<open>k\<close> remaining values of \<open>i\<close>. The divisor is a numpy float: a negative
  \<open>av_var\<close> or a zero divisor gives \<open>nan\<close> or \<open>inf\<close>.
\<close>

fun overlap_walk ::
  "gradient_data \<Rightarrow> real \<Rightarrow> nat \<Rightarrow> real \<Rightarrow> nat \<Rightarrow> nat \<Rightarrow> error + real list" where
  "overlap_walk gd beta base_index unnormalised_overlap i 0 = Inr []"
| "overlap_walk gd beta base_index unnormalised_overlap i (Suc k) =
     err_bind
       (if i \<noteq> 0 then
          err_bind (py_index (gd_lam_vals gd) (base_index + i)) (\<lambda>lam_hi.
          err_bind (py_index (gd_lam_vals gd) (base_index + i - 1)) (\<lambda>lam_lo.
          err_bind (py_index (vars_intra gd) (base_index + i)) (\<lambda>var_hi.
          err_bind (py_index (vars_intra gd) (base_index + i - 1)) (\<lambda>var_lo.
          let delta_lam = lam_hi - lam_lo; av_var = (var_hi + var_lo) / 2
          in if av_var < 0 then Inl NonFinite
             else if beta * delta_lam * sqrt av_var = 0 then Inl NonFinite
             else Inr (unnormalised_overlap / (beta * delta_lam * sqrt av_var))))))
        else Inr unnormalised_overlap) (\<lambda>u.
     err_bind (overlap_walk gd beta base_index u (i + 1) k) (\<lambda>rest.
     Inr (u # rest)))"

text \<open>Row \<open>base_index\<close> of the matrix after the first loop nest: zeros left of the
  diagonal, the walk from the diagonal on.\<close>

definition upper_row :: "gradient_data \<Rightarrow> real \<Rightarrow> nat \<Rightarrow> error + real list" where
  "upper_row gd beta base_index =
     err_bind (overlap_walk gd beta base_index 1 0 (n_lam gd - base_index)) (\<lambda>entries.
     Inr (replicate base_index 0 @ entries))"

definition upper_triangle :: "gradient_data \<Rightarrow> real \<Rightarrow> error + real list list" where
  "upper_triangle gd beta = collect (map (upper_row gd beta) [0..<n_lam gd])"

text \<open>\<open>mat += mat.T - np.diag(np.diag(mat))\<close> on a square matrix held as its list of
  rows.\<close>

definition mirror :: "nat \<Rightarrow> real list list \<Rightarrow> real list list" where
  "mirror n mat =
     map (\<lambda>i. map (\<lambda>j. mat ! i ! j + (mat ! j ! i - (if i = j then mat ! i ! i else 0)))
                  [0..<n]) [0..<n]"

text \<open>\<open>mat[i, :] /= mat[i, :].sum()\<close>; a zero row sum gives \<open>inf\<close> or \<open>nan\<close>.\<close>

definition normalise_row :: "real list \<Rightarrow> error + real list" where
  "normalise_row row =
     (if sum_list row = 0 then Inl NonFinite else Inr (map (\<lambda>v. v / sum_list row) row))"

text \<open>
  \<open>get_predicted_overlap_mat(temperature)\<close>. \<open>R\<close> stands for the gas constant that the
  source imports from \<open>scipy.constants\<close>; \<open>R\<close> and \<open>temperature\<close> are Python
  floats, so a zero product raises ZeroDivisionError.
\<close>

definition get_predicted_overlap_mat ::
  "real \<Rightarrow> gradient_data \<Rightarrow> real \<Rightarrow> error + real list list" where
  "get_predicted_overlap_mat R gd temperature =
     (if R * temperature = 0 then Inl ZeroDivisionError
      else
        let beta = (4.184 * 1000) / (R * temperature)
        in err_bind (upper_triangle gd beta) (\<lambda>upper.
           collect (map normalise_row (mirror (n_lam gd) upper))))"

section \<open>Simulation\<close>

text \<open>
  The attributes of a \<open>Simulation\<close> (simulation.py) that \<open>run\<close> and the Stage read or
  write. \<open>cfg\<close> is the file \<open>somd.cfg\<close> of the input directory, as the list of lines
  that \<open>readlines()\<close> returns (each line with its newline). \<open>job\<close> is the identifier
  of the job handed out by the virtual queue.
\<close>

record simulation =
  lam :: real
  run_no :: nat
  output_dir :: string
  cfg :: "string list"
  job :: "nat option"
  sim_running :: bool
  tot_simtime :: real
  timestep :: real
  nrg_freq :: real
  time_per_cycle :: real

text \<open>The command string \<open>--chdir <output_dir> run_somd.sh <lam>\<close>, kept as its two
  variable parts.\<close>

datatype command = SomdCommand string real

text \<open>
  \<open>run\<close> mixes exact decimal arithmetic with binary floating point. A float is held
  as the real number it denotes; the four operations on floats that \<open>run\<close> uses are
  taken as parameters: \<open>repr_decimal x\<close> is the decimal number that \<open>str(x)\<close>
  prints (the value of \<open>Decimal(str(x))\<close>), \<open>nearest_float d\<close> is \<open>float(d)\<close> for
  a decimal \<open>d\<close>, and \<open>float_div\<close> and \<open>float_add\<close> are the rounded quotient and
  sum of two floats.
\<close>

record float_ops =
  repr_decimal :: "real \<Rightarrow> real"
  nearest_float :: "real \<Rightarrow> real"
  float_div :: "real \<Rightarrow> real \<Rightarrow> real"
  float_add :: "real \<Rightarrow> real \<Rightarrow> real"

text \<open>
  \<open>Decimal(a) % Decimal(b)\<close> on two decimal numbers, in the default context of 28
  digits: a zero divisor raises \<open>decimal.InvalidOperation\<close>, and so does an integer
  quotient of more than 28 digits; otherwise the remainder is exact and has the sign of
  the dividend.
\<close>

definition decimal_rem :: "real \<Rightarrow> real \<Rightarrow> error + real" where
  "decimal_rem a b =
     (if b = 0 then Inl InvalidOperation
      else if 10 ^ 28 \<le> \<bar>py_int (a / b)\<bar> then Inl InvalidOperation
      else Inr (a - b * of_int (py_int (a / b))))"

text \<open>\<open>_set_n_cycles\<close>: the first line that starts with \<open>ncycles =\<close> is replaced, the
  file is written back.\<close>

fun set_n_cycles_lines :: "int \<Rightarrow> string list \<Rightarrow> string list" where
  "set_n_cycles_lines n_cycles [] = []"
| "set_n_cycles_lines n_cycles (line # rest) =
     (if startswith line ''ncycles =''
      then (''ncycles = '' @ str_int n_cycles @ [CHR 0x0A]) # rest
      else line # set_n_cycles_lines n_cycles rest)"

definition set_n_cycles :: "int \<Rightarrow> simulation \<Rightarrow> simulation" where
  "set_n_cycles n_cycles sim = sim\<lparr>cfg := set_n_cycles_lines n_cycles (cfg sim)\<rparr>"

text \<open>
  \<open>Simulation.run(duration)\<close>. The state is the virtual queue together with the
  simulation; \<open>submit\<close> stands for \<open>VirtualQueue.submit\<close>, which takes the command
  and returns the job with the queue after the submission. The remainder is taken
  between the decimals that \<open>str\<close> prints, converted to a float and rounded to 4
  places; the cycle count is the truncated float quotient
  \<open>int(duration / self.time_per_cycle)\<close>; the total simulated time grows by a float
  addition.
\<close>

definition run ::
  "float_ops \<Rightarrow> (command \<Rightarrow> 'q \<Rightarrow> nat \<times> 'q) \<Rightarrow> real \<Rightarrow> 'q \<times> simulation
     \<Rightarrow> (error + unit) \<times> ('q \<times> simulation)" where
  "run ops submit duration st =
     (case st of (vq, sim) \<Rightarrow>
        (case decimal_rem (repr_decimal ops duration)
                (repr_decimal ops (time_per_cycle sim)) of
           Inl e \<Rightarrow> (Inl e, st)
         | Inr remainder \<Rightarrow>
             if py_round (nearest_float ops remainder) 4 \<noteq> 0 then (Inl ValueError, st)
             else
               let n_cycles = py_int (float_div ops duration (time_per_cycle sim));
                   sim1 = set_n_cycles n_cycles sim
               in (case submit (SomdCommand (output_dir sim1) (lam sim1)) vq of
                     (j, vq1) \<Rightarrow>
                       (Inr (), (vq1, sim1\<lparr>job := Some j, sim_running := True,
                                          tot_simtime :=
                                            float_add ops (tot_simtime sim1) duration\<rparr>)))))"

section \<open>Calculation\<close>

text \<open>
  \<open>Calculation.setup\<close> (calculation.py). \<open>clog\<close> collects the messages sent to the
  logger and \<open>dumps\<close> counts the calls of \<open>_dump\<close>. The class \<open>Leg\<close> is taken as two
  parameters: \<open>mk_leg\<close> for its constructor and \<open>leg_setup\<close> for \<open>Leg.setup\<close>;
  either may raise. The method is named \<open>calculation_setup\<close> here.
\<close>

datatype leg_type = FREE | BOUND

definition required_legs :: "leg_type list" where
  "required_legs = [FREE, BOUND]"

fun leg_name_lower :: "leg_type \<Rightarrow> string" where
  "leg_name_lower FREE = ''free''"
| "leg_name_lower BOUND = ''bound''"

record 'leg calculation =
  setup_complete :: bool
  legs :: "'leg list"
  clog :: "string list"
  dumps :: nat

fun setup_legs ::
  "(leg_type \<Rightarrow> error + 'leg) \<Rightarrow> ('leg \<Rightarrow> error + 'leg) \<Rightarrow> leg_type list
     \<Rightarrow> 'leg calculation \<Rightarrow> (error + unit) \<times> 'leg calculation" where
  "setup_legs mk_leg leg_setup [] c = (Inr (), c)"
| "setup_legs mk_leg leg_setup (t # ts) c =
     (let c1 = c\<lparr>clog := clog c @ [''Setting up '' @ leg_name_lower t @ '' leg...'']\<rparr>
      in case mk_leg t of
           Inl e \<Rightarrow> (Inl e, c1)
         | Inr leg \<Rightarrow>
             (case leg_setup leg of
                Inl e \<Rightarrow> (Inl e, c1\<lparr>legs := legs c1 @ [leg]\<rparr>)
              | Inr leg' \<Rightarrow>
                  setup_legs mk_leg leg_setup ts (c1\<lparr>legs := legs c1 @ [leg']\<rparr>)))"

definition calculation_setup ::
  "(leg_type \<Rightarrow> error + 'leg) \<Rightarrow> ('leg \<Rightarrow> error + 'leg) \<Rightarrow> 'leg calculation
     \<Rightarrow> (error + unit) \<times> 'leg calculation" where
  "calculation_setup mk_leg leg_setup c =
     (if setup_complete c then
        (Inr (), c\<lparr>clog := clog c @ [''Setup already complete. Skipping...'']\<rparr>)
      else
        let c0 = c\<lparr>legs := [], clog := clog c @ [''Modifying/ creating legs'']\<rparr>
        in case setup_legs mk_leg leg_setup (rev required_legs) c0 of
             (Inl e, c1) \<Rightarrow> (Inl e, c1)
           | (Inr u, c1) \<Rightarrow> (Inr (), c1\<lparr>setup_complete := True, dumps := dumps c1 + 1\<rparr>))"

section \<open>Stage: analysis and the adaptive-efficiency pass\<close>

text \<open>
  The attributes of a lambda window and of a Stage (stage.py) that the methods below
  read or write. \<open>equilibrated_flag\<close> is the window's \<open>_equilibrated\<close>;
  \<open>stage_running\<close> and \<open>failed_simulations\<close> are the values that the inherited
  properties \<open>running\<close> and \<open>failed_simulations\<close> return when \<open>analyse\<close> reads them;
  \<open>running_wins\<close> holds the positions of the windows in \<open>lam_windows\<close>; \<open>files\<close>
  maps a path to the lines of the file there.
\<close>

record lam_window =
  win_lam :: real
  equilibrated_flag :: bool
  equil_time :: "real option"
  sims :: "simulation list"
  ensemble_size :: nat

record stage =
  lam_windows :: "lam_window list"
  stage_running :: bool
  failed_simulations :: "string list"
  running_wins :: "nat list"
  maximally_efficient :: bool
  runtime_constant :: "real option"
  files :: "string \<Rightarrow> string list option"

subsection \<open>Truncation to the equilibrated region\<close>

text \<open>The number of leading lines that start with \<open>#\<close>.\<close>

definition non_data_lines :: "string list \<Rightarrow> nat" where
  "non_data_lines lines = length (takeWhile (\<lambda>line. startswith line ''#'') lines)"

text \<open>\<open>_write_equilibrated_data\<close>: the header \<open>lines[:non_data_lines]\<close>, then
  \<open>lines[equil_index + non_data_lines:]\<close>.\<close>

definition write_equilibrated_data ::
  "string \<Rightarrow> string \<Rightarrow> int \<Rightarrow> (string \<Rightarrow> string list option)
     \<Rightarrow> (error + unit) \<times> (string \<Rightarrow> string list option)" where
  "write_equilibrated_data in_simfile out_simfile equil_index fs =
     (case fs in_simfile of
        None \<Rightarrow> (Inl FileNotFoundError, fs)
      | Some lines \<Rightarrow>
          (Inr (),
           fs(out_simfile \<mapsto>
                take (non_data_lines lines) lines
                @ py_slice_from lines (equil_index + int (non_data_lines lines)))))"

text \<open>\<open>int(equil_time / (win.sims[0].timestep * win.sims[0].nrg_freq)) - 1\<close>.\<close>

definition equil_index :: "lam_window \<Rightarrow> error + int" where
  "equil_index win =
     err_bind (py_index (sims win) 0) (\<lambda>sim0.
     (case equil_time win of
        None \<Rightarrow> Inl TypeError
      | Some t \<Rightarrow>
          if timestep sim0 * nrg_freq sim0 = 0 then Inl ZeroDivisionError
          else Inr (py_int (t / (timestep sim0 * nrg_freq sim0)) - 1)))"

fun write_equilibrated_sims ::
  "int \<Rightarrow> simulation list \<Rightarrow> (string \<Rightarrow> string list option)
     \<Rightarrow> (error + unit) \<times> (string \<Rightarrow> string list option)" where
  "write_equilibrated_sims idx [] fs = (Inr (), fs)"
| "write_equilibrated_sims idx (sim # rest) fs =
     (case write_equilibrated_data (output_dir sim @ ''/simfile.dat'')
             (output_dir sim @ ''/simfile_equilibrated.dat'') idx fs of
        (Inl e, fs1) \<Rightarrow> (Inl e, fs1)
      | (Inr u, fs1) \<Rightarrow> write_equilibrated_sims idx rest fs1)"

fun write_equilibrated_windows ::
  "lam_window list \<Rightarrow> (string \<Rightarrow> string list option)
     \<Rightarrow> (error + unit) \<times> (string \<Rightarrow> string list option)" where
  "write_equilibrated_windows [] fs = (Inr (), fs)"
| "write_equilibrated_windows (win # rest) fs =
     (case equil_index win of
        Inl e \<Rightarrow> (Inl e, fs)
      | Inr idx \<Rightarrow>
          (case write_equilibrated_sims idx (sims win) fs of
             (Inl e, fs1) \<Rightarrow> (Inl e, fs1)
           | (Inr u, fs1) \<Rightarrow> write_equilibrated_windows rest fs1))"

subsection \<open>analyse\<close>

text \<open>The loop of \<open>analyse\<close> over the windows that checks \<open>_equilibrated\<close> and
  \<open>equil_time\<close>.\<close>

fun check_equilibrated :: "lam_window list \<Rightarrow> error + unit" where
  "check_equilibrated [] = Inr ()"
| "check_equilibrated (win # rest) =
     (if \<not> equilibrated_flag win then Inl RuntimeError
      else if equil_time win = None then Inl RuntimeError
      else check_equilibrated rest)"

text \<open>
  \<open>Stage.analyse(get_frnrg)\<close>, up to the values it returns: the three checks, the
  truncation of every repeat's output and the call of the free-energy estimator, which
  is the parameter \<open>run_mbar\<close> and returns the free energies and their errors. The
  plots and the report file written afterwards are not modelled. The result is
  \<open>None\<close> for the pair \<open>(None, None)\<close> that is returned without \<open>get_frnrg\<close>.
\<close>

definition analyse ::
  "((string \<Rightarrow> string list option) \<Rightarrow> error + real list \<times> real list) \<Rightarrow> bool \<Rightarrow> stage
     \<Rightarrow> (error + (real list \<times> real list) option) \<times> stage" where
  "analyse run_mbar get_frnrg s =
     (if stage_running s then (Inl RuntimeError, s)
      else if failed_simulations s \<noteq> [] then (Inl RuntimeError, s)
      else
        (case check_equilibrated (lam_windows s) of
           Inl e \<Rightarrow> (Inl e, s)
         | Inr u \<Rightarrow>
             if get_frnrg then
               (case write_equilibrated_windows (lam_windows s) (files s) of
                  (Inl e, fs1) \<Rightarrow> (Inl e, s\<lparr>files := fs1\<rparr>)
                | (Inr u, fs1) \<Rightarrow>
                    (case run_mbar fs1 of
                       Inl e \<Rightarrow> (Inl e, s\<lparr>files := fs1\<rparr>)
                     | Inr res \<Rightarrow> (Inr (Some res), s\<lparr>files := fs1\<rparr>)))
             else (Inr None, s)))"

subsection \<open>One pass of the adaptive-efficiency loop\<close>

text \<open>
  The target run time of a window in \<open>_run_loop_adaptive_efficiency\<close>:
  \<open>(1 / sqrt(runtime_constant)) * normalised_sem_dg\<close>, replaced by
  \<open>maximum_runtime * ensemble_size\<close> when it exceeds that; and the time for which the
  window is resubmitted: the missing time divided by the ensemble size, rounded to one
  decimal place.
\<close>

definition predicted_run_time_max_eff :: "real \<Rightarrow> real \<Rightarrow> real \<Rightarrow> lam_window \<Rightarrow> real" where
  "predicted_run_time_max_eff rc maximum_runtime normalised_sem_dg win =
     (let predicted = (1 / sqrt rc) * normalised_sem_dg;
          cap = maximum_runtime * real (ensemble_size win)
      in if cap < predicted then cap else predicted)"

definition resubmit_time :: "real \<Rightarrow> real \<Rightarrow> lam_window \<Rightarrow> real" where
  "resubmit_time predicted actual_run_time win =
     py_round ((predicted - actual_run_time) / real (ensemble_size win)) 1"

text \<open>
  The loop over the windows. \<open>win_tot_simtime\<close> stands for the property
  \<open>LamWindow.tot_simtime\<close> and \<open>win_run\<close> for \<open>LamWindow.run\<close>. The windows are
  visited by position; a resubmitted window is replaced by its state after \<open>run\<close> and
  its position is appended to \<open>running_wins\<close>. \<open>1 / np.sqrt(runtime_constant)\<close> is a
  numpy float, so a runtime constant that is not positive gives \<open>inf\<close> or \<open>nan\<close>; so
  does the division by an ensemble size of zero.
\<close>

fun resubmit_windows ::
  "(lam_window \<Rightarrow> real) \<Rightarrow> (real \<Rightarrow> lam_window \<Rightarrow> error + lam_window) \<Rightarrow> real
     \<Rightarrow> real list \<Rightarrow> nat list \<Rightarrow> stage \<Rightarrow> (error + unit) \<times> stage" where
  "resubmit_windows win_tot_simtime win_run maximum_runtime smooth_dg_sems [] s = (Inr (), s)"
| "resubmit_windows win_tot_simtime win_run maximum_runtime smooth_dg_sems (i # rest) s =
     (let win = lam_windows s ! i
      in case py_index smooth_dg_sems i of
           Inl e \<Rightarrow> (Inl e, s)
         | Inr normalised_sem_dg \<Rightarrow>
            (case runtime_constant s of
               None \<Rightarrow> (Inl TypeError, s)
             | Some rc \<Rightarrow>
                if rc \<le> 0 then (Inl NonFinite, s)
                else
                  let predicted = predicted_run_time_max_eff rc maximum_runtime
                                    normalised_sem_dg win;
                      actual_run_time = win_tot_simtime win
                  in if actual_run_time < predicted - 0.1 then
                       if ensemble_size win = 0 then (Inl NonFinite, s)
                       else if 0 < resubmit_time predicted actual_run_time win then
                         (case win_run (resubmit_time predicted actual_run_time win) win of
                            Inl e \<Rightarrow> (Inl e, s)
                          | Inr win' \<Rightarrow>
                              resubmit_windows win_tot_simtime win_run maximum_runtime
                                smooth_dg_sems rest
                                (s\<lparr>lam_windows := (lam_windows s)[i := win'],
                                   running_wins := running_wins s @ [i]\<rparr>))
                       else resubmit_windows win_tot_simtime win_run maximum_runtime
                              smooth_dg_sems rest s
                     else resubmit_windows win_tot_simtime win_run maximum_runtime
                            smooth_dg_sems rest s))"

text \<open>The part of a pass that follows the extraction of the smoothed SEMs: the loop over
  all windows, then \<open>_maximally_efficient\<close> is set if no window is running.\<close>

definition resubmit_and_flag ::
  "(lam_window \<Rightarrow> real) \<Rightarrow> (real \<Rightarrow> lam_window \<Rightarrow> error + lam_window) \<Rightarrow> real
     \<Rightarrow> real list \<Rightarrow> stage \<Rightarrow> (error + unit) \<times> stage" where
  "resubmit_and_flag win_tot_simtime win_run maximum_runtime smooth_dg_sems s =
     (case resubmit_windows win_tot_simtime win_run maximum_runtime smooth_dg_sems
             [0..<length (lam_windows s)] s of
        (Inl e, s1) \<Rightarrow> (Inl e, s1)
      | (Inr u, s1) \<Rightarrow>
          (Inr (), if running_wins s1 = [] then s1\<lparr>maximally_efficient := True\<rparr> else s1))"

text \<open>
  The body of \<open>while not self._maximally_efficient\<close> from the point where every
  window has stopped (\<open>running_wins\<close> is empty): the gradient data is built from all
  windows with \<open>equilibrated=False\<close> (\<open>mk_gradient_data\<close> stands for the constructor
  call), the smoothed SEMs are requested with origin \<open>inter_delta_g\<close>, and the windows
  are resubmitted and the flag set as above.
\<close>

definition run_loop_adaptive_efficiency_pass ::
  "(lam_window list \<Rightarrow> bool \<Rightarrow> error + gradient_data) \<Rightarrow> (lam_window \<Rightarrow> real)
     \<Rightarrow> (real \<Rightarrow> lam_window \<Rightarrow> error + lam_window) \<Rightarrow> real \<Rightarrow> stage
     \<Rightarrow> (error + unit) \<times> stage" where
  "run_loop_adaptive_efficiency_pass mk_gradient_data win_tot_simtime win_run maximum_runtime s =
     (case mk_gradient_data (lam_windows s) False of
        Inl e \<Rightarrow> (Inl e, s)
      | Inr gradient_data \<Rightarrow>
          (case get_sems gradient_data ''inter_delta_g'' True of
             Inl e \<Rightarrow> (Inl e, s)
           | Inr smooth_dg_sems \<Rightarrow>
               resubmit_and_flag win_tot_simtime win_run maximum_runtime smooth_dg_sems s))"

section \<open>What the constructor guarantees\<close>

text \<open>
  Gradient data as \<open>GradientData.__init__\<close> builds it for a Stage with at least two
  windows: every list has \<open>n_lam\<close> entries, the lambda values are strictly increasing
  (the Stage's invariant), and the sampling times, the SEMs and the variances are not
  negative.
\<close>

definition gd_wf :: "gradient_data \<Rightarrow> bool" where
  "gd_wf gd =
     (2 \<le> n_lam gd
      \<and> length (gd_lam_vals gd) = n_lam gd
      \<and> length (sampling_times gd) = n_lam gd
      \<and> length (sems_overall gd) = n_lam gd
      \<and> length (sems_intra gd) = n_lam gd
      \<and> length (sems_inter gd) = n_lam gd
      \<and> length (vars_intra gd) = n_lam gd
      \<and> sorted_wrt (<) (gd_lam_vals gd)
      \<and> list_all (\<lambda>v. 0 \<le> v) (sampling_times gd)
      \<and> list_all (\<lambda>v. 0 \<le> v) (sems_overall gd)
      \<and> list_all (\<lambda>v. 0 \<le> v) (sems_intra gd)
      \<and> list_all (\<lambda>v. 0 \<le> v) (sems_inter gd)
      \<and> list_all (\<lambda>v. 0 \<le> v) (vars_intra gd))"

section \<open>Reference wording and example inputs\<close>


text \<open>A simulation with a 4 fs timestep and 31250 moves per cycle, that is 0.125 ns per
  cycle, and a queue that numbers its jobs by position.\<close>

definition example_sim :: simulation where
  "example_sim =
     \<lparr>lam = 0, run_no = 1, output_dir = ''lambda_0.000/run_01'',
      cfg = [''nmoves = 31250'' @ [CHR 0x0A], ''ncycles = 5'' @ [CHR 0x0A],
             ''timestep = 4 * femtosecond'' @ [CHR 0x0A]],
      job = None, sim_running = False, tot_simtime = 1,
      timestep = 4 / 1000000, nrg_freq = 100, time_per_cycle = 1 / 8\<rparr>"



text \<open>"A 3-point unweighted block average" of one series, as the specification describes
  the smoothing of \<open>get_sems\<close>: the two edge entries are averaged with their single
  neighbour, every interior entry with both neighbours and itself.\<close>

definition block_average3 :: "real list \<Rightarrow> real list" where
  "block_average3 xs =
     map (\<lambda>i. if i = 0 then (xs ! i + xs ! (i + 1)) / 2
              else if i = length xs - 1 then (xs ! i + xs ! (i - 1)) / 2
              else (xs ! i + xs ! (i + 1) + xs ! (i - 1)) / 3)
         [0..<length xs]"

text \<open>"The leading comment lines, then the data rows from index \<open>idx\<close> on, all earlier
  data rows removed", as the specification describes the equilibrated output file.\<close>

definition equilibrated_region :: "string list \<Rightarrow> int \<Rightarrow> string list" where
  "equilibrated_region lines idx =
     takeWhile (\<lambda>line. startswith line ''#'') lines
     @ drop (nat idx) (dropWhile (\<lambda>line. startswith line ''#'') lines)"

text \<open>Gradient data of three windows, each sampled for 4 ns, with inter-run SEMs
  3, 6, 9 and intra-run SEMs 4, 8, 12, hence total SEMs 5, 10, 15.\<close>

definition example_gd :: gradient_data where
  "example_gd =
     \<lparr>gd_equilibrated = False, n_lam = 3, gd_lam_vals = [0, 1 / 2, 1],
      sampling_times = [4, 4, 4], means = [18 / 10, 16 / 10, 14 / 10],
      sems_overall = [5, 10, 15], sems_intra = [4, 8, 12], sems_inter = [3, 6, 9],
      vars_intra = [1, 1, 1], stat_ineffs = [1, 1, 1]\<rparr>"

text \<open>An output file with one header line and three data rows, and a window that is
  equilibrated from the start (\<open>equil_time = 0\<close>).\<close>

definition example_simfile :: "string list" where
  "example_simfile =
     [''#   [step]  [potential]  [gradient]'' @ [CHR 0x0A],
      ''100  -10.5  1.8'' @ [CHR 0x0A],
      ''200  -10.7  1.6'' @ [CHR 0x0A],
      ''300  -10.6  1.7'' @ [CHR 0x0A]]"

definition example_files :: "string \<Rightarrow> string list option" where
  "example_files = [''lambda_0.000/run_01/simfile.dat'' \<mapsto> example_simfile]"

definition example_win :: lam_window where
  "example_win =
     \<lparr>win_lam = 0, equilibrated_flag = True, equil_time = Some 0,
      sims = [example_sim], ensemble_size = 1\<rparr>"

definition example_stage :: stage where
  "example_stage =
     \<lparr>lam_windows = [example_win], stage_running = False, failed_simulations = [],
      running_wins = [], maximally_efficient = False, runtime_constant = Some 1,
      files = example_files\<rparr>"

text \<open>Gradient data of three windows whose gradient samples never vary: every SEM and
  every variance is zero.\<close>

definition example_gd_flat :: gradient_data where
  "example_gd_flat =
     \<lparr>gd_equilibrated = False, n_lam = 3, gd_lam_vals = [0, 1 / 2, 1],
      sampling_times = [4, 4, 4], means = [18 / 10, 16 / 10, 14 / 10],
      sems_overall = [0, 0, 0], sems_intra = [0, 0, 0], sems_inter = [0, 0, 0],
      vars_intra = [0, 0, 0], stat_ineffs = [1, 1, 1]\<rparr>"

section \<open>Auxiliary lemmas\<close>

subsection \<open>Error-propagating loops\<close>

lemma collect_map_Inr:
  "collect (map (\<lambda>i. Inr (f i)) is) = Inr (map f is)"
  by (induction "is") simp_all

lemma collect_all_Inr:
  assumes "\<And>i. i \<in> set is \<Longrightarrow> g i = Inr (f i)"
  shows "collect (map g is) = Inr (map f is)"
proof -
  have "map g is = map (\<lambda>i. Inr (f i)) is"
    using assms by (simp cong: map_cong)
  then show ?thesis by (simp only: collect_map_Inr)
qed

subsection \<open>Rounding\<close>

lemma round_half_even_zero_iff: "round_half_even y = 0 \<longleftrightarrow> \<bar>y\<bar> \<le> 1 / 2"
proof -
  define f where "f = \<lfloor>y\<rfloor>"
  have lo: "of_int f \<le> y" and hi: "y < of_int f + 1"
    unfolding f_def by linarith+
  consider "y - of_int f < 1 / 2" | "1 / 2 < y - of_int f" | "y - of_int f = 1 / 2"
    by linarith
  then show ?thesis
  proof cases
    case 1
    then have "round_half_even y = f" by (simp add: round_half_even_def f_def)
    moreover have "f = 0 \<longleftrightarrow> \<bar>y\<bar> \<le> 1 / 2"
    proof
      assume "f = 0" with lo 1 show "\<bar>y\<bar> \<le> 1 / 2" by simp
    next
      assume a: "\<bar>y\<bar> \<le> 1 / 2"
      have "real_of_int f < 1" using lo a by linarith
      moreover have "- 1 < real_of_int f" using 1 a by linarith
      ultimately show "f = 0" by linarith
    qed
    ultimately show ?thesis by simp
  next
    case 2
    then have "round_half_even y = f + 1" by (simp add: round_half_even_def f_def)
    moreover have "f + 1 = 0 \<longleftrightarrow> \<bar>y\<bar> \<le> 1 / 2"
    proof
      assume "f + 1 = 0"
      then have "real_of_int f = - 1" by linarith
      with 2 hi show "\<bar>y\<bar> \<le> 1 / 2" by linarith
    next
      assume a: "\<bar>y\<bar> \<le> 1 / 2"
      have "real_of_int f < 0" using 2 a by linarith
      moreover have "- 2 < real_of_int f" using hi a by linarith
      ultimately show "f + 1 = 0" by linarith
    qed
    ultimately show ?thesis by simp
  next
    case 3
    then have r: "round_half_even y = (if even f then f else f + 1)"
      by (simp add: round_half_even_def f_def)
    show ?thesis
    proof
      assume z: "round_half_even y = 0"
      show "\<bar>y\<bar> \<le> 1 / 2"
      proof (cases "even f")
        case True with r z have "f = 0" by simp
        with 3 show ?thesis by simp
      next
        case False with r z have "real_of_int f = - 1" by simp
        with 3 show ?thesis by linarith
      qed
    next
      assume a: "\<bar>y\<bar> \<le> 1 / 2"
      have "real_of_int f < 1" using lo a by linarith
      moreover have "- 2 < real_of_int f" using hi a by linarith
      ultimately have "f = 0 \<or> f = - 1" by linarith
      then show "round_half_even y = 0" using r by auto
    qed
  qed
qed

lemma py_round_zero_iff: "py_round x d = 0 \<longleftrightarrow> \<bar>x\<bar> * 10 ^ d \<le> 1 / 2"
  by (simp add: py_round_def round_half_even_zero_iff abs_mult)


lemma round_half_even_bounds:
  "\<lfloor>y\<rfloor> \<le> round_half_even y" "round_half_even y \<le> \<lfloor>y\<rfloor> + 1"
  by (simp_all add: round_half_even_def Let_def)

lemma round_half_even_mono:
  assumes "x \<le> y"
  shows "round_half_even x \<le> round_half_even y"
proof (cases "\<lfloor>x\<rfloor> < \<lfloor>y\<rfloor>")
  case True
  have "round_half_even x \<le> \<lfloor>x\<rfloor> + 1" by (rule round_half_even_bounds)
  also have "\<dots> \<le> \<lfloor>y\<rfloor>" using True by simp
  also have "\<dots> \<le> round_half_even y" by (rule round_half_even_bounds)
  finally show ?thesis .
next
  case False
  moreover have "\<lfloor>x\<rfloor> \<le> \<lfloor>y\<rfloor>" using assms by (rule floor_mono)
  ultimately have eq: "\<lfloor>x\<rfloor> = \<lfloor>y\<rfloor>" by simp
  have "x - of_int \<lfloor>y\<rfloor> \<le> y - of_int \<lfloor>y\<rfloor>" using assms by simp
  then show ?thesis
    unfolding round_half_even_def Let_def eq by auto
qed

lemma py_round_mono: "x \<le> y \<Longrightarrow> py_round x d \<le> py_round y d"
  unfolding py_round_def
  by (intro divide_right_mono of_int_le_iff[THEN iffD2] round_half_even_mono mult_right_mono) simp_all

subsection \<open>Interpolation over sample points in non-decreasing order\<close>

lemma interp_scan_lower:
  assumes "sorted (map fst ((x0, y0) # ps))" "sorted (map snd ((x0, y0) # ps))" "x0 \<le> x"
  shows "y0 \<le> interp_scan x ((x0, y0) # ps)"
  using assms
proof (induction ps arbitrary: x0 y0)
  case Nil
  then show ?case by simp
next
  case (Cons p ps)
  obtain x1 y1 where p: "p = (x1, y1)" by (cases p)
  show ?case
  proof (cases "x1 \<le> x")
    case True
    have "y1 \<le> interp_scan x ((x1, y1) # ps)"
      using Cons.prems True by (intro Cons.IH) (simp_all add: p)
    moreover have "y0 \<le> y1" using Cons.prems(2) by (simp add: p)
    ultimately show ?thesis using True by (simp add: p)
  next
    case False
    have "0 \<le> (y1 - y0) / (x1 - x0) * (x - x0)"
      using Cons.prems False by (simp add: p)
    then show ?thesis using False by (simp add: p)
  qed
qed

lemma interp_segment_upper:
  fixes x :: real
  assumes "x0 \<le> x" "x < x1" "y0 \<le> y1"
  shows "(y1 - y0) / (x1 - x0) * (x - x0) + y0 \<le> y1"
proof -
  have pos: "0 < x1 - x0" using assms by simp
  have "(y1 - y0) / (x1 - x0) * (x - x0) = (y1 - y0) * ((x - x0) / (x1 - x0))" by simp
  also have "\<dots> \<le> (y1 - y0) * 1"
    using assms pos by (intro mult_left_mono) (simp_all add: divide_le_eq)
  finally show ?thesis by simp
qed

lemma interp_scan_mono:
  assumes "sorted (map fst ((x0, y0) # ps))" "sorted (map snd ((x0, y0) # ps))"
    "x0 \<le> x" "x \<le> x'"
  shows "interp_scan x ((x0, y0) # ps) \<le> interp_scan x' ((x0, y0) # ps)"
  using assms
proof (induction ps arbitrary: x0 y0)
  case Nil
  then show ?case by simp
next
  case (Cons p ps)
  obtain x1 y1 where p: "p = (x1, y1)" by (cases p)
  have s1: "sorted (map fst ((x1, y1) # ps))" and s2: "sorted (map snd ((x1, y1) # ps))"
    and y01: "y0 \<le> y1" and x01: "x0 \<le> x1"
    using Cons.prems by (simp_all add: p)
  show ?case
  proof (cases "x1 \<le> x")
    case True
    then have "x1 \<le> x'" using Cons.prems(4) by simp
    with True show ?thesis
      using Cons.IH [OF s1 s2 True Cons.prems(4)] by (simp add: p)
  next
    case xs: False
    have low: "interp_scan x ((x0, y0) # (x1, y1) # ps) \<le> y1"
      using xs y01 interp_segment_upper [of x0 x x1 y0 y1] Cons.prems(3) by simp
    show ?thesis
    proof (cases "x1 \<le> x'")
      case True
      have "y1 \<le> interp_scan x' ((x1, y1) # ps)"
        using s1 s2 True by (rule interp_scan_lower)
      with low True show ?thesis by (simp add: p)
    next
      case False
      have sl: "0 \<le> (y1 - y0) / (x1 - x0)"
        using y01 x01 by simp
      have "(y1 - y0) / (x1 - x0) * (x - x0) \<le> (y1 - y0) / (x1 - x0) * (x' - x0)"
        using sl Cons.prems(4) by (intro mult_left_mono) simp_all
      moreover have "0 \<le> (y1 - y0) / (x1 - x0) * (x' - x0)"
        using sl Cons.prems(3,4) by (intro mult_nonneg_nonneg) simp_all
      ultimately show ?thesis using xs False Cons.prems(3,4) by (auto simp: p)
    qed
  qed
qed

lemma interp_scan_last:
  assumes "sorted (map fst (p # ps))" "fst (last (p # ps)) \<le> x"
  shows "interp_scan x (p # ps) = snd (last (p # ps))"
  using assms
proof (induction ps arbitrary: p)
  case Nil
  then show ?case by (cases p) simp
next
  case (Cons q ps)
  obtain x0 y0 x1 y1 where pq: "p = (x0, y0)" "q = (x1, y1)" by (cases p, cases q)
  have lq: "fst (last (q # ps)) \<le> x" using Cons.prems(2) by simp
  have sq: "sorted (map fst (q # ps))" using Cons.prems(1) by simp
  have ih: "interp_scan x (q # ps) = snd (last (q # ps))" using sq lq by (rule Cons.IH)
  have "fst q \<le> fst (last (q # ps))"
  proof (cases "ps = []")
    case True then show ?thesis by simp
  next
    case False
    then have "last ps \<in> set ps" by (rule last_in_set)
    with sq False show ?thesis by auto
  qed
  then have "x1 \<le> x" using \<open>fst (last (q # ps)) \<le> x\<close> by (simp add: pq)
  then show ?case using ih by (simp add: pq)
qed

lemma interp_scan_first:
  assumes "x0 < x1"
  shows "interp_scan x0 ((x0, y0) # (x1, y1) # ps) = y0"
  using assms by simp

subsection \<open>The trapezoidal rule and the integrated error curve\<close>

lemma np_broadcast2_same_length:
  "length xs = length ys \<Longrightarrow> np_broadcast2 f xs ys = Inr (map2 f xs ys)"
  by (simp add: np_broadcast2_def)

lemma np_sqrt_nonneg:
  "list_all (\<lambda>v. 0 \<le> v) xs \<Longrightarrow> np_sqrt xs = Inr (map sqrt xs)"
  by (auto simp: np_sqrt_def list_ex_iff list_all_iff)

lemma np_trapz_eq:
  fixes x y :: "real list"
  assumes "length y = length x"
  shows "np_trapz y x =
           Inr (\<Sum>j<length x - 1. (x ! (j + 1) - x ! j) * (y ! (j + 1) + y ! j) / 2)"
proof -
  let ?m = "length x - 1"
  let ?s = "map2 (+) (tl y) (butlast y)"
  let ?p = "map2 (*) (np_diff x) ?s"
  have ls: "length ?s = ?m" using assms by simp
  have ld: "length (np_diff x) = ?m" by (simp add: np_diff_def)
  have lp: "length ?p = ?m" using ls ld by simp
  have b1: "np_broadcast2 (+) (tl y) (butlast y) = Inr ?s"
    by (rule np_broadcast2_same_length) simp
  have b2: "np_broadcast2 (*) (np_diff x) ?s = Inr ?p"
    by (rule np_broadcast2_same_length) (simp only: ls ld)
  have "sum_list (map (\<lambda>v. v / 2) ?p) = (\<Sum>j = 0..<?m. map (\<lambda>v. v / 2) ?p ! j)"
    using lp by (simp add: sum_list_sum_nth)
  also have "\<dots> = (\<Sum>j = 0..<?m. (x ! (j + 1) - x ! j) * (y ! (j + 1) + y ! j) / 2)"
  proof (rule sum.cong)
    fix j assume "j \<in> {0..<?m}"
    then have j: "j < ?m" by simp
    then have jy: "j < length y - 1" using assms by simp
    have "?p ! j = np_diff x ! j * ?s ! j" using j ls ld by simp
    moreover have "np_diff x ! j = x ! (j + 1) - x ! j"
      using j by (simp add: np_diff_def nth_tl nth_butlast)
    moreover have "?s ! j = y ! (j + 1) + y ! j"
      using jy by (simp add: nth_tl nth_butlast)
    ultimately show "map (\<lambda>v. v / 2) ?p ! j = (x ! (j + 1) - x ! j) * (y ! (j + 1) + y ! j) / 2"
      using j lp by simp
  qed simp
  finally have "sum_list (map (\<lambda>v. v / 2) ?p)
      = (\<Sum>j<?m. (x ! (j + 1) - x ! j) * (y ! (j + 1) + y ! j) / 2)"
    by (simp add: atLeast0LessThan)
  then show ?thesis
    by (simp add: np_trapz_def b1 b2 err_bind_def)
qed

lemma np_trapz_take:
  assumes "length y = length x" "i < length x"
  shows "np_trapz (take (i + 1) y) (take (i + 1) x) =
           Inr (\<Sum>j<i. (x ! (j + 1) - x ! j) * (y ! (j + 1) + y ! j) / 2)"
proof -
  have l: "length (take (i + 1) y) = length (take (i + 1) x)" using assms by simp
  have li: "length (take (i + 1) x) - 1 = i" using assms by simp
  have "np_trapz (take (i + 1) y) (take (i + 1) x) =
      Inr (\<Sum>j<i. (take (i + 1) x ! (j + 1) - take (i + 1) x ! j)
                    * (take (i + 1) y ! (j + 1) + take (i + 1) y ! j) / 2)"
    using np_trapz_eq [OF l] unfolding li .
  also have "(\<Sum>j<i. (take (i + 1) x ! (j + 1) - take (i + 1) x ! j)
                    * (take (i + 1) y ! (j + 1) + take (i + 1) y ! j) / 2)
      = (\<Sum>j<i. (x ! (j + 1) - x ! j) * (y ! (j + 1) + y ! j) / 2)"
    by (rule sum.cong) simp_all
  finally show ?thesis .
qed

lemma integrated_errors_eq:
  assumes "length y = length x"
  shows "collect (map (\<lambda>i. np_trapz (take (i + 1) y) (take (i + 1) x)) [0..<length x])
         = Inr (map (\<lambda>i. \<Sum>j<i. (x ! (j + 1) - x ! j) * (y ! (j + 1) + y ! j) / 2)
                    [0..<length x])"
  by (rule collect_all_Inr) (use assms np_trapz_take in auto)

lemma integrated_errors_sorted:
  fixes x y :: "real list"
  assumes "length y = length x" "sorted_wrt (<) x" "\<forall>v \<in> set y. 0 \<le> v"
  shows "sorted (map (\<lambda>i. \<Sum>j<i. (x ! (j + 1) - x ! j) * (y ! (j + 1) + y ! j) / 2)
                    [0..<length x])"
proof -
  let ?c = "\<lambda>j. (x ! (j + 1) - x ! j) * (y ! (j + 1) + y ! j) / 2"
  have nonneg: "0 \<le> ?c j" if "j + 1 < length x" for j
  proof -
    have "x ! j < x ! (j + 1)"
      using assms(2) that by (simp add: sorted_wrt_iff_nth_less)
    moreover have "0 \<le> y ! (j + 1)" "0 \<le> y ! j"
      using assms(1,3) that by simp_all
    ultimately show ?thesis by simp
  qed
  have mono: "(\<Sum>j<a. ?c j) \<le> (\<Sum>j<b. ?c j)" if "a \<le> b" "b < length x" for a b
  proof (rule sum_mono2)
    show "finite {..<b}" by simp
    show "{..<a} \<subseteq> {..<b}" using that by auto
    fix j assume "j \<in> {..<b} - {..<a}"
    then have "j + 1 < length x" using that by auto
    then show "0 \<le> ?c j" by (rule nonneg)
  qed
  show ?thesis
    unfolding sorted_iff_nth_mono
  proof (intro allI impI)
    fix a b assume ab: "a \<le> b"
      and b: "b < length (map (\<lambda>i. \<Sum>j<i. ?c j) [0..<length x])"
    then have "b < length x" by simp
    with ab have "(\<Sum>j<a. ?c j) \<le> (\<Sum>j<b. ?c j)" by (rule mono)
    then show "map (\<lambda>i. \<Sum>j<i. ?c j) [0..<length x] ! a
             \<le> map (\<lambda>i. \<Sum>j<i. ?c j) [0..<length x] ! b"
      using ab \<open>b < length x\<close> by simp
  qed
qed

subsection \<open>The error series of well-formed gradient data\<close>

lemma smooth_sem_wf:
  assumes "2 \<le> length sems" "length (sems_overall gd) = length sems" "i < length sems"
    "\<forall>v \<in> set sems. 0 \<le> v" "\<forall>v \<in> set (sems_overall gd). 0 \<le> v"
  shows "\<exists>v. smooth_sem gd sems i = Inr v \<and> 0 \<le> v"
proof -
  have nn: "0 \<le> sems ! i" using assms(3,4) by simp
  have ov: "0 \<le> sems_overall gd ! k" if "k < length sems" for k
    using assms(2,5) that by simp
  consider "i = 0" | "i \<noteq> 0" "i = length sems - 1" | "i \<noteq> 0" "i \<noteq> length sems - 1"
    by blast
  then show ?thesis
  proof cases
    case 1
    have "smooth_sem gd sems i = Inr ((sems ! i + sems_overall gd ! (i + 1)) / 2)"
      using 1 assms(1,2) by (simp add: smooth_sem_def py_index_def err_bind_def)
    moreover have "0 \<le> (sems ! i + sems_overall gd ! (i + 1)) / 2"
      using 1 assms(1) nn ov [of 1] by simp
    ultimately show ?thesis by blast
  next
    case 2
    then have e: "int i = int (length sems) - 1" using assms(1) by simp
    have "smooth_sem gd sems i = Inr ((sems ! i + sems_overall gd ! (i - 1)) / 2)"
      using 2(1) e assms(2,3) by (simp add: smooth_sem_def py_index_def err_bind_def)
    moreover have "0 \<le> (sems ! i + sems_overall gd ! (i - 1)) / 2"
      using assms(3) nn ov [of "i - 1"] by simp
    ultimately show ?thesis by blast
  next
    case 3
    then have ne: "int i \<noteq> int (length sems) - 1" using assms(1) by linarith
    have lt: "i + 1 < length sems" using 3 assms(3) by linarith
    have "smooth_sem gd sems i
            = Inr ((sems ! i + sems_overall gd ! (i + 1) + sems_overall gd ! (i - 1)) / 3)"
      using 3(1) ne lt assms(2,3) by (simp add: smooth_sem_def py_index_def err_bind_def)
    moreover have "0 \<le> (sems ! i + sems_overall gd ! (i + 1) + sems_overall gd ! (i - 1)) / 3"
      using lt assms(3) nn ov [of "i - 1"] ov [of "i + 1"] by simp
    ultimately show ?thesis by blast
  qed
qed

lemma collect_all_ok:
  assumes "\<And>i. i \<in> set is \<Longrightarrow> \<exists>v. g i = Inr v \<and> P v"
  shows "\<exists>vs. collect (map g is) = Inr vs \<and> length vs = length is \<and> (\<forall>v \<in> set vs. P v)"
  using assms
proof (induction "is")
  case Nil
  then show ?case by simp
next
  case (Cons i "is")
  obtain v where v: "g i = Inr v" "P v" using Cons.prems by auto
  obtain vs where vs: "collect (map g is) = Inr vs" "length vs = length is" "\<forall>v \<in> set vs. P v"
    using Cons.IH Cons.prems by auto
  show ?case using v vs by simp
qed

lemma get_sems_wf:
  assumes "gd_wf gd" "origin = ''inter'' \<or> origin = ''intra''"
  shows "\<exists>ys. get_sems gd origin smoothen = Inr ys \<and> length ys = n_lam gd
              \<and> (\<forall>v \<in> set ys. 0 \<le> v)"
proof -
  let ?raw = "if origin = ''inter'' then sems_inter gd else sems_intra gd"
  let ?sems = "map2 (*) ?raw (map sqrt (sampling_times gd))"
  have wf: "2 \<le> n_lam gd" "length (sampling_times gd) = n_lam gd"
    "length (sems_overall gd) = n_lam gd" "length ?raw = n_lam gd"
    "list_all (\<lambda>v. 0 \<le> v) (sampling_times gd)"
    "\<forall>v \<in> set (sems_overall gd). 0 \<le> v" "\<forall>v \<in> set ?raw. 0 \<le> v"
    using assms(1) by (simp_all add: gd_wf_def list_all_iff)
  have rt: "np_sqrt (sampling_times gd) = Inr (map sqrt (sampling_times gd))"
    using wf(5) by (rule np_sqrt_nonneg)
  have br: "np_broadcast2 (*) ?raw (map sqrt (sampling_times gd)) = Inr ?sems"
    by (rule np_broadcast2_same_length) (simp add: wf)
  have ls: "length ?sems = n_lam gd" using wf by simp
  have ns: "\<forall>v \<in> set ?sems. 0 \<le> v"
  proof
    fix v assume "v \<in> set ?sems"
    then obtain a b where ab: "v = a * b" "(a, b) \<in> set (zip ?raw (map sqrt (sampling_times gd)))"
      by auto
    have "a \<in> set ?raw" using ab(2) by (rule set_zip_leftD)
    then have "0 \<le> a" using wf(7) by simp
    moreover have "b \<in> set (map sqrt (sampling_times gd))" using ab(2) by (rule set_zip_rightD)
    then have "0 \<le> b" using wf(5) by (auto simp: list_all_iff)
    ultimately show "0 \<le> v" using ab(1) by simp
  qed
  show ?thesis
  proof (cases smoothen)
    case False
    then have "get_sems gd origin smoothen = Inr ?sems"
      using assms(2) rt br by (auto simp: get_sems_def err_bind_def)
    then show ?thesis using ls ns by blast
  next
    case True
    have "\<exists>vs. collect (map (smooth_sem gd ?sems) [0..<length ?sems]) = Inr vs
            \<and> length vs = length [0..<length ?sems] \<and> (\<forall>v \<in> set vs. 0 \<le> v)"
    proof (rule collect_all_ok)
      fix i assume "i \<in> set [0..<length ?sems]"
      then have "i < length ?sems" by simp
      then show "\<exists>v. smooth_sem gd ?sems i = Inr v \<and> 0 \<le> v"
        using wf ls ns by (intro smooth_sem_wf) simp_all
    qed
    then obtain vs where vs: "collect (map (smooth_sem gd ?sems) [0..<length ?sems]) = Inr vs"
      "length vs = n_lam gd" "\<forall>v \<in> set vs. 0 \<le> v"
      using ls by auto
    have "get_sems gd origin smoothen = Inr vs"
      using True assms(2) rt br vs(1) by (auto simp: get_sems_def err_bind_def)
    then show ?thesis using vs by blast
  qed
qed

lemma get_integrated_error_wf:
  assumes "gd_wf gd" "er_type = ''sem'' \<or> er_type = ''root_var''"
    "origin = ''inter'' \<or> origin = ''intra''"
  shows "\<exists>y. length y = n_lam gd \<and> (\<forall>v \<in> set y. 0 \<le> v)
            \<and> get_integrated_error gd er_type origin smoothen
                = Inr (map (\<lambda>i. \<Sum>j<i. (gd_lam_vals gd ! (j + 1) - gd_lam_vals gd ! j)
                                            * (y ! (j + 1) + y ! j) / 2)
                           [0..<n_lam gd])"
proof -
  have ln: "length (gd_lam_vals gd) = n_lam gd" using assms(1) by (simp add: gd_wf_def)
  have "\<exists>y. (if er_type = ''sem'' then get_sems gd origin smoothen
                  else np_sqrt (vars_intra gd)) = Inr y
            \<and> length y = n_lam gd \<and> (\<forall>v \<in> set y. 0 \<le> v)"
  proof (cases "er_type = ''sem''")
    case True
    then show ?thesis using get_sems_wf [OF assms(1,3)] by simp
  next
    case False
    have "list_all (\<lambda>v. 0 \<le> v) (vars_intra gd)" "length (vars_intra gd) = n_lam gd"
      using assms(1) by (simp_all add: gd_wf_def)
    then show ?thesis using False by (auto simp: np_sqrt_nonneg list_all_iff)
  qed
  then obtain y where y: "(if er_type = ''sem'' then get_sems gd origin smoothen
                  else np_sqrt (vars_intra gd)) = Inr y"
     "length y = n_lam gd" "\<forall>v \<in> set y. 0 \<le> v" by blast
  have "get_integrated_error gd er_type origin smoothen
          = collect (map (\<lambda>i. np_trapz (take (i + 1) y) (take (i + 1) (gd_lam_vals gd)))
                         [0..<length (gd_lam_vals gd)])"
    using assms(2,3) y(1) by (auto simp: get_integrated_error_def err_bind_def Let_def)
  also have "\<dots> = Inr (map (\<lambda>i. \<Sum>j<i. (gd_lam_vals gd ! (j + 1) - gd_lam_vals gd ! j)
                                            * (y ! (j + 1) + y ! j) / 2)
                           [0..<length (gd_lam_vals gd)])"
    by (rule integrated_errors_eq) (simp add: y(2) ln)
  finally show ?thesis using y(2,3) ln by auto
qed

subsection \<open>Equally spaced targets\<close>

lemma sorted_map_mono_on:
  fixes f :: "real \<Rightarrow> real"
  assumes "sorted ts" "\<And>a b. a \<in> set ts \<Longrightarrow> b \<in> set ts \<Longrightarrow> a \<le> b \<Longrightarrow> f a \<le> f b"
  shows "sorted (map f ts)"
  using assms by (induction ts) auto

lemma np_linspace_from_zero:
  assumes "2 \<le> k" "0 \<le> T"
  shows "\<exists>ts. np_linspace 0 T k = Inr (0 # ts) \<and> length (0 # ts) = nat k \<and> sorted (0 # ts)
           \<and> last (0 # ts) = T \<and> (\<forall>t \<in> set (0 # ts). 0 \<le> t \<and> t \<le> T)"
proof -
  let ?c = "T / real_of_int (k - 1)"
  let ?m = "nat k - 1"
  let ?front = "map (\<lambda>i. 0 + real i * ?c) [0..<?m]"
  have kpos: "0 < real_of_int (k - 1)" using assms(1) by simp
  have c0: "0 \<le> ?c" using assms kpos by simp
  have m: "?m = Suc (?m - 1)" using assms(1) by linarith
  have ls: "np_linspace 0 T k = Inr (?front @ [T])"
    using assms(1) by (simp add: np_linspace_def)
  have bound: "real i * ?c \<le> T" if "i < ?m" for i
  proof -
    have "real i \<le> real_of_int (k - 1)" using that assms(1) by linarith
    then have "real i * ?c \<le> real_of_int (k - 1) * ?c"
      using c0 by (rule mult_right_mono)
    also have "\<dots> = T" using kpos by simp
    finally show ?thesis .
  qed
  have front0: "?front = 0 # map (\<lambda>i. 0 + real i * ?c) [1..<?m]"
    by (subst m, subst upt_conv_Cons) (use m in simp_all)
  have sf: "sorted ?front"
    unfolding sorted_iff_nth_mono
  proof (intro allI impI)
    fix i j assume ij: "i \<le> j" and "j < length ?front"
    then have j: "j < ?m" by simp
    have "real i * ?c \<le> real j * ?c" using ij c0 by (intro mult_right_mono) simp_all
    then show "?front ! i \<le> ?front ! j" using ij j by simp
  qed
  have all: "\<forall>t \<in> set (?front @ [T]). 0 \<le> t \<and> t \<le> T"
    using c0 assms(2) bound by auto
  have "sorted (?front @ [T])"
    unfolding sorted_append using sf bound by auto
  moreover have "length (?front @ [T]) = nat k" using assms(1) by simp
  moreover have "?front @ [T] = 0 # (map (\<lambda>i. 0 + real i * ?c) [1..<?m] @ [T])"
    using front0 by simp
  ultimately show ?thesis
    using ls all by (metis last_snoc)
qed

lemma last_zip_same_length:
  assumes "length xs = length ys" "xs \<noteq> []"
  shows "last (zip xs ys) = (last xs, last ys)"
proof -
  have "ys \<noteq> []" using assms by auto
  then have "zip xs ys \<noteq> []" using assms(2) by (cases xs; cases ys) auto
  then have "last (zip xs ys) = zip xs ys ! (length (zip xs ys) - 1)"
    by (rule last_conv_nth)
  also have "\<dots> = (xs ! (length xs - 1), ys ! (length ys - 1))"
    using assms \<open>ys \<noteq> []\<close> by (simp add: nth_zip)
  finally show ?thesis
    using assms \<open>ys \<noteq> []\<close> by (simp add: last_conv_nth)
qed

subsection \<open>The predicted overlap matrix\<close>

lemma collect_indexed:
  assumes "\<And>i. i \<in> set is \<Longrightarrow> \<exists>v. g i = Inr v \<and> P i v"
  shows "\<exists>vs. collect (map g is) = Inr vs \<and> length vs = length is
              \<and> (\<forall>k<length is. P (is ! k) (vs ! k))"
  using assms
proof (induction "is")
  case Nil
  then show ?case by simp
next
  case (Cons i "is")
  obtain v where v: "g i = Inr v" "P i v" using Cons.prems by auto
  obtain vs where vs: "collect (map g is) = Inr vs" "length vs = length is"
    "\<forall>k<length is. P (is ! k) (vs ! k)"
    using Cons.IH Cons.prems by auto
  have "\<forall>k<length (i # is). P ((i # is) ! k) ((v # vs) ! k)"
    using v(2) vs(3) by (auto simp: nth_Cons split: nat.split)
  then show ?case using v(1) vs(1,2) by simp
qed

lemma overlap_walk_ok:
  assumes "length (gd_lam_vals gd) = n" "length (vars_intra gd) = n"
    "sorted_wrt (<) (gd_lam_vals gd)" "list_all (\<lambda>v. 0 < v) (vars_intra gd)" "0 < beta"
    "base + i + k \<le> n" "0 < u"
  shows "\<exists>es. overlap_walk gd beta base u i k = Inr es \<and> length es = k
              \<and> (\<forall>e \<in> set es. 0 < e)"
  using assms(6,7)
proof (induction k arbitrary: u i)
  case 0
  then show ?case by simp
next
  case (Suc k)
  let ?lam = "gd_lam_vals gd" and ?var = "vars_intra gd"
  let ?step = "if i \<noteq> 0 then
          err_bind (py_index ?lam (base + i)) (\<lambda>lam_hi.
          err_bind (py_index ?lam (base + i - 1)) (\<lambda>lam_lo.
          err_bind (py_index ?var (base + i)) (\<lambda>var_hi.
          err_bind (py_index ?var (base + i - 1)) (\<lambda>var_lo.
          let delta_lam = lam_hi - lam_lo; av_var = (var_hi + var_lo) / 2
          in if av_var < 0 then Inl NonFinite
             else if beta * delta_lam * sqrt av_var = 0 then Inl NonFinite
             else Inr (u / (beta * delta_lam * sqrt av_var))))))
        else Inr u"
  have "\<exists>u'. ?step = Inr u' \<and> 0 < u'"
  proof (cases "i = 0")
    case True
    then show ?thesis using Suc.prems(2) by simp
  next
    case False
    have hi: "base + i < n" and lo: "base + i - 1 < n" using Suc.prems(1) by simp_all
    have dl: "0 < ?lam ! (base + i) - ?lam ! (base + i - 1)"
      using assms(1,3) hi False by (simp add: sorted_wrt_iff_nth_less)
    have "0 < ?var ! (base + i)" "0 < ?var ! (base + i - 1)"
      using assms(2,4) hi lo by (simp_all add: list_all_length)
    then have av: "0 < (?var ! (base + i) + ?var ! (base + i - 1)) / 2" by simp
    then have sq: "0 < sqrt ((?var ! (base + i) + ?var ! (base + i - 1)) / 2)" by simp
    have d: "0 < beta * (?lam ! (base + i) - ?lam ! (base + i - 1))
                   * sqrt ((?var ! (base + i) + ?var ! (base + i - 1)) / 2)"
      using assms(5) dl sq by simp
    have "?step = Inr (u / (beta * (?lam ! (base + i) - ?lam ! (base + i - 1))
                   * sqrt ((?var ! (base + i) + ?var ! (base + i - 1)) / 2)))"
      using False hi lo assms(1,2,5) av dl
      by (simp add: py_index_def err_bind_def Let_def)
    moreover have "0 < u / (beta * (?lam ! (base + i) - ?lam ! (base + i - 1))
                   * sqrt ((?var ! (base + i) + ?var ! (base + i - 1)) / 2))"
      using Suc.prems(2) d by simp
    ultimately show ?thesis by blast
  qed
  then obtain u' where u': "?step = Inr u'" "0 < u'" by blast
  have "base + (i + 1) + k \<le> n" using Suc.prems(1) by simp
  then obtain es where es: "overlap_walk gd beta base u' (i + 1) k = Inr es" "length es = k"
    "\<forall>e \<in> set es. 0 < e"
    using Suc.IH [of "i + 1" u'] u'(2) by blast
  have "overlap_walk gd beta base u i (Suc k) = Inr (u' # es)"
    using u'(1) es(1) by (simp add: err_bind_def)
  then show ?case using es(2,3) u'(2) by simp
qed

lemma upper_row_ok:
  assumes "length (gd_lam_vals gd) = n_lam gd" "length (vars_intra gd) = n_lam gd"
    "sorted_wrt (<) (gd_lam_vals gd)" "list_all (\<lambda>v. 0 < v) (vars_intra gd)" "0 < beta"
    "b < n_lam gd"
  shows "\<exists>row. upper_row gd beta b = Inr row \<and> length row = n_lam gd
              \<and> (\<forall>j<n_lam gd. (j < b \<longrightarrow> row ! j = 0) \<and> (b \<le> j \<longrightarrow> 0 < row ! j))"
proof -
  have "b + 0 + (n_lam gd - b) \<le> n_lam gd" using assms(6) by simp
  then obtain es where es: "overlap_walk gd beta b 1 0 (n_lam gd - b) = Inr es"
    "length es = n_lam gd - b" "\<forall>e \<in> set es. 0 < e"
    using overlap_walk_ok [OF assms(1-5), of b 0 "n_lam gd - b" 1] by auto
  have r: "upper_row gd beta b = Inr (replicate b 0 @ es)"
    using es(1) by (simp add: upper_row_def err_bind_def)
  have l: "length (replicate b 0 @ es) = n_lam gd" using es(2) assms(6) by simp
  have "(j < b \<longrightarrow> (replicate b 0 @ es) ! j = 0) \<and> (b \<le> j \<longrightarrow> 0 < (replicate b 0 @ es) ! j)"
    if "j < n_lam gd" for j
  proof (cases "j < b")
    case True
    then show ?thesis by (simp add: nth_append)
  next
    case False
    then have "j - b < length es" using that es(2) by simp
    then have "es ! (j - b) \<in> set es" by simp
    then have "0 < es ! (j - b)" using es(3) by blast
    then show ?thesis using False by (simp add: nth_append)
  qed
  then show ?thesis using r l by blast
qed

lemma upper_triangle_ok:
  assumes "length (gd_lam_vals gd) = n_lam gd" "length (vars_intra gd) = n_lam gd"
    "sorted_wrt (<) (gd_lam_vals gd)" "list_all (\<lambda>v. 0 < v) (vars_intra gd)" "0 < beta"
  shows "\<exists>upper. upper_triangle gd beta = Inr upper \<and> length upper = n_lam gd
              \<and> (\<forall>b<n_lam gd. length (upper ! b) = n_lam gd
                    \<and> (\<forall>j<n_lam gd. (j < b \<longrightarrow> upper ! b ! j = 0)
                                   \<and> (b \<le> j \<longrightarrow> 0 < upper ! b ! j)))"
proof -
  let ?P = "\<lambda>b row. length row = n_lam gd
              \<and> (\<forall>j<n_lam gd. (j < b \<longrightarrow> row ! j = 0) \<and> (b \<le> j \<longrightarrow> 0 < row ! j))"
  have "\<exists>vs. collect (map (upper_row gd beta) [0..<n_lam gd]) = Inr vs
          \<and> length vs = length [0..<n_lam gd]
          \<and> (\<forall>k<length [0..<n_lam gd]. ?P ([0..<n_lam gd] ! k) (vs ! k))"
  proof (rule collect_indexed)
    fix b assume "b \<in> set [0..<n_lam gd]"
    then have "b < n_lam gd" by simp
    then show "\<exists>v. upper_row gd beta b = Inr v \<and> ?P b v"
      using upper_row_ok [OF assms] by blast
  qed
  then obtain vs where vs: "collect (map (upper_row gd beta) [0..<n_lam gd]) = Inr vs"
    "length vs = n_lam gd" "\<forall>k<n_lam gd. ?P k (vs ! k)"
    by auto
  show ?thesis
    using vs by (intro exI [of _ vs]) (simp add: upper_triangle_def)
qed

lemma mirror_symmetric:
  assumes "i < n" "j < n"
  shows "mirror n mat ! i ! j = mirror n mat ! j ! i"
  using assms by (simp add: mirror_def)

lemma mirror_length: "length (mirror n mat) = n"
  by (simp add: mirror_def)

lemma mirror_row:
  "i < n \<Longrightarrow> mirror n mat ! i
      = map (\<lambda>j. mat ! i ! j + (mat ! j ! i - (if i = j then mat ! i ! i else 0))) [0..<n]"
  by (simp add: mirror_def)

lemma mirror_positive:
  assumes "\<forall>b<n. \<forall>j<n. (j < b \<longrightarrow> upper ! b ! j = 0) \<and> (b \<le> j \<longrightarrow> 0 < upper ! b ! j)"
    "i < n"
  shows "\<forall>v \<in> set (mirror n upper ! i). 0 < v"
proof
  fix v assume "v \<in> set (mirror n upper ! i)"
  then obtain j where j: "j < n"
    "v = upper ! i ! j + (upper ! j ! i - (if i = j then upper ! i ! i else 0))"
    using assms(2) by (auto simp: mirror_row)
  consider "i < j" | "i = j" | "j < i" by linarith
  then show "0 < v"
  proof cases
    case 1
    then have "0 < upper ! i ! j" "upper ! j ! i = 0" using assms j(1) by simp_all
    then show ?thesis using 1 j(2) by simp
  next
    case 2
    then have "0 < upper ! i ! i" using assms by simp
    then show ?thesis using 2 j(2) by simp
  next
    case 3
    then have "upper ! i ! j = 0" "0 < upper ! j ! i" using assms j(1) by simp_all
    then show ?thesis using 3 j(2) by simp
  qed
qed

lemma normalise_row_ok:
  assumes "row \<noteq> []" "\<forall>v \<in> set row. 0 < v"
  shows "normalise_row row = Inr (map (\<lambda>v. v / sum_list row) row)"
    and "sum_list (map (\<lambda>v. v / sum_list row) row) = 1"
proof -
  have "0 < sum_list row"
  proof (cases row)
    case Nil then show ?thesis using assms(1) by simp
  next
    case (Cons a rest)
    have "0 \<le> sum_list rest"
      using assms(2) Cons by (intro sum_list_nonneg) (simp add: less_imp_le)
    moreover have "0 < a" using assms(2) Cons by simp
    ultimately show ?thesis using Cons by simp
  qed
  then have nz: "sum_list row \<noteq> 0" by simp
  then show "normalise_row row = Inr (map (\<lambda>v. v / sum_list row) row)"
    by (simp add: normalise_row_def)
  have "sum_list (map (\<lambda>v. v / sum_list row) row) = sum_list (map (\<lambda>v. v * (1 / sum_list row)) row)"
    by simp
  also have "\<dots> = sum_list row * (1 / sum_list row)"
    by (simp only: sum_list_mult_const) simp
  finally show "sum_list (map (\<lambda>v. v / sum_list row) row) = 1" using nz by simp
qed

subsection \<open>Evaluating the example data\<close>

lemma example_upper:
  "0 < beta \<Longrightarrow> upper_triangle example_gd beta
     = Inr [[1, 2 / beta, 4 / (beta * beta)], [0, 1, 2 / beta], [0, 0, 1]]"
  by (simp add: upper_triangle_def upper_row_def example_gd_def py_index_def err_bind_def
        upt_rec numeral_3_eq_3 numeral_2_eq_2)

section \<open>Stage.lam_val_weights\<close>

lemma lam_val_weight_ok:
  assumes "2 \<le> length l" "i < length l"
  shows "lam_val_weight l i = Inr ((if i + 1 < length l then 0.5 * (l ! (i + 1) - l ! i) else 0)
             + (if 0 < i then 0.5 * (l ! i - l ! (i - 1)) else 0))"
  using assms by (auto simp: lam_val_weight_def py_index_def field_simps)

lemma tele_up:
  fixes f :: "nat \<Rightarrow> real"
  shows "(\<Sum>i<Suc m. (if i + 1 < Suc m then f (i + 1) - f i else 0)) = f m - f 0"
proof -
  have "(\<Sum>i<Suc m. (if i + 1 < Suc m then f (i + 1) - f i else 0)) = (\<Sum>i<m. f (Suc i) - f i)"
    by simp
  also have "\<dots> = f m - f 0" by (rule sum_lessThan_telescope)
  finally show ?thesis .
qed

lemma tele_down:
  fixes f :: "nat \<Rightarrow> real"
  shows "(\<Sum>i<Suc m. (if 0 < i then f i - f (i - 1) else 0)) = f m - f 0"
proof (induction m)
  case 0 show ?case by simp
next
  case (Suc m) then show ?case by simp
qed

text \<open>
  Claim C8, amended. For every list of at least two lambda values,
  \<open>lam_val_weights\<close> returns one weight per value and the weights sum to
  \<open>lam_vals[-1] - lam_vals[0]\<close>. (The sum telescopes; the order of the values plays no
  part.)
\<close>

theorem lam_val_weights_sum:
  assumes "2 \<le> length lam_vals"
  shows "\<exists>ws. lam_val_weights lam_vals = Inr ws \<and> length ws = length lam_vals
            \<and> sum_list ws = last lam_vals - hd lam_vals"
proof -
  let ?n = "length lam_vals"
  let ?a = "\<lambda>i. (if i + 1 < ?n then 0.5 * (lam_vals ! (i + 1) - lam_vals ! i) else 0)"
  let ?b = "\<lambda>i. (if 0 < i then 0.5 * (lam_vals ! i - lam_vals ! (i - 1)) else 0)"
  let ?w = "\<lambda>i. ?a i + ?b i"
  obtain m where m: "?n = Suc m" using assms by (cases ?n) auto
  have run: "lam_val_weights lam_vals = Inr (map ?w [0..<?n])"
    unfolding lam_val_weights_def
    by (rule collect_all_Inr) (use assms lam_val_weight_ok in auto)
  have "sum_list (map ?w [0..<?n]) = (\<Sum>i<?n. ?w i)"
    by (simp add: interv_sum_list_conv_sum_set_nat atLeast0LessThan)
  also have "\<dots> = (\<Sum>i<?n. ?a i) + (\<Sum>i<?n. ?b i)"
    by (rule sum.distrib)
  also have "(\<Sum>i<?n. ?a i) = 0.5 * (\<Sum>i<Suc m. (if i + 1 < Suc m then lam_vals ! (i + 1) - lam_vals ! i else 0))"
    unfolding m sum_distrib_left by (rule sum.cong) auto
  also have "\<dots> = 0.5 * (lam_vals ! m - lam_vals ! 0)" by (simp only: tele_up)
  also have "(\<Sum>i<?n. ?b i) = 0.5 * (\<Sum>i<Suc m. (if 0 < i then lam_vals ! i - lam_vals ! (i - 1) else 0))"
    unfolding m sum_distrib_left by (rule sum.cong) auto
  also have "\<dots> = 0.5 * (lam_vals ! m - lam_vals ! 0)" by (simp only: tele_down)
  finally have s: "sum_list (map ?w [0..<?n]) = lam_vals ! m - lam_vals ! 0" by simp
  have ne: "lam_vals \<noteq> []" using assms by auto
  have "last lam_vals = lam_vals ! m" using m ne by (simp add: last_conv_nth)
  moreover have "hd lam_vals = lam_vals ! 0" using ne by (simp add: hd_conv_nth)
  ultimately show ?thesis using run s by simp
qed

theorem lam_val_weights_sum_witness:
  "2 \<le> length [0, 0.5, 1 :: real] \<and>
   lam_val_weights [0, 0.5, 1] = Inr [0.25, 0.5, 0.25] \<and>
   sum_list [0.25, 0.5, 0.25 :: real] = last [0, 0.5, 1 :: real] - hd [0, 0.5, 1 :: real]"
  using lam_val_weights_sum [of "[0, 0.5, 1]"]
  by (simp add: lam_val_weights_def lam_val_weight_def py_index_def upt_rec)

text \<open>
  Claim C8 as stated fails for the strictly increasing list with a single lambda value:
  the branch for \<open>i = 0\<close> reads \<open>lam_vals[1]\<close> and raises IndexError.
\<close>

theorem lam_val_weights_single_counterexample:
  "sorted_wrt (<) [0.5 :: real] \<and> lam_val_weights [0.5] = Inl IndexError"
  by (simp add: lam_val_weights_def lam_val_weight_def py_index_def)

section \<open>Simulation.run\<close>




section \<open>Stage.analyse: the three checks\<close>

lemma check_equilibrated_fails:
  "\<exists>win \<in> set wins. \<not> equilibrated_flag win \<Longrightarrow> check_equilibrated wins = Inl RuntimeError"
  by (induction wins) auto

text \<open>
  Claim C3. \<open>analyse\<close> raises RuntimeError, and leaves the Stage and its files as they
  were, whenever the Stage is running, or the list of failed simulations is not empty,
  or some window's \<open>_equilibrated\<close> flag is false; each condition alone suffices.
\<close>

theorem analyse_fails:
  assumes "stage_running s \<or> failed_simulations s \<noteq> []
             \<or> (\<exists>win \<in> set (lam_windows s). \<not> equilibrated_flag win)"
  shows "analyse run_mbar get_frnrg s = (Inl RuntimeError, s)"
proof (cases "stage_running s \<or> failed_simulations s \<noteq> []")
  case True
  then show ?thesis by (auto simp: analyse_def)
next
  case False
  with assms have "\<exists>win \<in> set (lam_windows s). \<not> equilibrated_flag win" by blast
  then have "check_equilibrated (lam_windows s) = Inl RuntimeError"
    by (rule check_equilibrated_fails)
  with False show ?thesis by (simp add: analyse_def)
qed

theorem analyse_fails_witness:
  "stage_running (example_stage\<lparr>stage_running := True\<rparr>)
   \<and> analyse (\<lambda>fs. Inr ([], [])) True (example_stage\<lparr>stage_running := True\<rparr>)
       = (Inl RuntimeError, example_stage\<lparr>stage_running := True\<rparr>)
   \<and> failed_simulations (example_stage\<lparr>failed_simulations := [''lambda_0.000/run_01'']\<rparr>) \<noteq> []
   \<and> analyse (\<lambda>fs. Inr ([], [])) True
         (example_stage\<lparr>failed_simulations := [''lambda_0.000/run_01'']\<rparr>)
       = (Inl RuntimeError, example_stage\<lparr>failed_simulations := [''lambda_0.000/run_01'']\<rparr>)
   \<and> \<not> equilibrated_flag (example_win\<lparr>equilibrated_flag := False\<rparr>)
   \<and> analyse (\<lambda>fs. Inr ([], [])) True
         (example_stage\<lparr>lam_windows := [example_win\<lparr>equilibrated_flag := False\<rparr>]\<rparr>)
       = (Inl RuntimeError,
          example_stage\<lparr>lam_windows := [example_win\<lparr>equilibrated_flag := False\<rparr>]\<rparr>)"
  using analyse_fails [of "example_stage\<lparr>stage_running := True\<rparr>" "\<lambda>fs. Inr ([], [])" True]
    analyse_fails [of "example_stage\<lparr>failed_simulations := [''lambda_0.000/run_01'']\<rparr>"
      "\<lambda>fs. Inr ([], [])" True]
    analyse_fails [of "example_stage\<lparr>lam_windows := [example_win\<lparr>equilibrated_flag := False\<rparr>]\<rparr>"
      "\<lambda>fs. Inr ([], [])" True]
  by (simp add: example_stage_def example_win_def)

section \<open>Calculation.setup\<close>

text \<open>
  Claim C9, amended. Calling \<open>setup\<close> on a Calculation whose setup is already complete
  raises nothing: the call logs that setup is already complete and returns, leaving the
  legs, the completion flag and the persisted state untouched.
\<close>

theorem setup_twice_skips:
  "setup_complete c \<Longrightarrow>
     calculation_setup mk_leg leg_setup c =
       (Inr (), c\<lparr>clog := clog c @ [''Setup already complete. Skipping...'']\<rparr>)"
  by (simp add: calculation_setup_def)

theorem setup_twice_skips_witness:
  "setup_complete \<lparr>setup_complete = True, legs = [1::nat, 2], clog = [], dumps = 1\<rparr> \<and>
   calculation_setup (\<lambda>t. Inl RuntimeError) (\<lambda>l. Inl RuntimeError)
       \<lparr>setup_complete = True, legs = [1::nat, 2], clog = [], dumps = 1\<rparr>
     = (Inr (), \<lparr>setup_complete = True, legs = [1, 2],
                 clog = [''Setup already complete. Skipping...''], dumps = 1\<rparr>)"
  using setup_twice_skips [of "\<lparr>setup_complete = True, legs = [1::nat, 2], clog = [], dumps = 1\<rparr>"
      "\<lambda>t. Inl RuntimeError" "\<lambda>l. Inl RuntimeError"]
  by simp

text \<open>
  Claim C9 as stated fails: on a Calculation that is already set up, \<open>setup\<close> returns
  normally.
\<close>

theorem setup_twice_counterexample:
  "fst (calculation_setup (\<lambda>t. Inr (0::nat)) (\<lambda>l. Inr l)
       \<lparr>setup_complete = True, legs = [1::nat, 2], clog = [], dumps = 1\<rparr>) = Inr ()"
  by (simp add: calculation_setup_def)

section \<open>The adaptive-efficiency pass\<close>

lemma get_sems_inter_delta_g: "get_sems gd ''inter_delta_g'' smoothen = Inl ValueError"
  by (simp add: get_sems_def)

text \<open>
  Claim C1 describes the pass as it is meant to work: the smoothed standard errors are
  extracted, every window is compared with its target time and resubmitted if needed,
  and the flag is set when none was. The code does not get that far. The pass asks
  \<open>get_sems\<close> for the origin \<open>inter_delta_g\<close>, and \<open>get_sems\<close> accepts only \<open>inter\<close>
  and \<open>intra\<close>. So every pass ends with an exception and the Stage as it was: when
  the gradient data cannot be built, with the constructor's exception; otherwise with
  ValueError. No window is resubmitted and the flag is never set.
\<close>

theorem adaptive_efficiency_pass_raises:
  "run_loop_adaptive_efficiency_pass mk_gradient_data win_tot_simtime win_run maximum_runtime s =
     (case mk_gradient_data (lam_windows s) False of
        Inl e \<Rightarrow> (Inl e, s)
      | Inr gd \<Rightarrow> (Inl ValueError, s))"
  by (simp add: run_loop_adaptive_efficiency_pass_def get_sems_inter_delta_g split: sum.split)

section \<open>get\_sems with smoothing\<close>

text \<open>
  Claim C7 says that the smoothed value is the block average of the standardised series
  of the chosen origin. The code averages each entry of that series with neighbours read
  from \<open>sems_overall\<close>, the total SEMs, which are not standardised. For the example
  data the standardised inter-run series is 6, 12, 18 and its block average is
  9, 12, 15, but \<open>get_sems\<close> returns 8, 32/3, 14.
\<close>

theorem get_sems_smoothen_mixes_series:
  "get_sems example_gd ''inter'' False = Inr [6, 12, 18]
   \<and> get_sems example_gd ''inter'' True = Inr [8, 32 / 3, 14]
   \<and> block_average3 [6, 12, 18] = [9, 12, 15]
   \<and> [8, 32 / 3, 14] \<noteq> block_average3 [6, 12, 18]"
  by (simp add: get_sems_def example_gd_def np_sqrt_def np_broadcast2_def err_bind_def
        smooth_sem_def py_index_def block_average3_def upt_rec)

section \<open>Truncation to the equilibrated region\<close>

text \<open>For a non-negative index the file written is the header followed by the data rows
  from that index on.\<close>

lemma write_equilibrated_data_nonneg:
  assumes "fs in_simfile = Some lines" "0 \<le> idx"
  shows "write_equilibrated_data in_simfile out_simfile idx fs =
           (Inr (), fs(out_simfile \<mapsto> equilibrated_region lines idx))"
proof -
  let ?P = "\<lambda>line. startswith line ''#''"
  let ?h = "length (takeWhile ?P lines)"
  have n: "nat (idx + int ?h) = ?h + nat idx"
    using assms(2) by linarith
  have "drop (nat (idx + int ?h)) lines = drop (nat idx) (drop ?h lines)"
    unfolding n by (simp only: drop_drop add.commute)
  also have "drop ?h lines = dropWhile ?P lines"
    by (rule dropWhile_eq_drop [symmetric])
  finally have d: "drop (nat (idx + int ?h)) lines = drop (nat idx) (dropWhile ?P lines)" .
  have nn: "0 \<le> idx + int ?h" using assms(2) by linarith
  have sl: "py_slice_from lines (idx + int (non_data_lines lines))
          = drop (nat idx) (dropWhile ?P lines)"
    unfolding py_slice_from_def non_data_lines_def using nn d by (simp only: if_True)
  have tk: "take (non_data_lines lines) lines = takeWhile ?P lines"
    unfolding non_data_lines_def by (rule takeWhile_eq_take [symmetric])
  show ?thesis
    using assms(1)
    by (simp add: write_equilibrated_data_def equilibrated_region_def sl tk)
qed

text \<open>
  Claim C10 fails when the equilibration time is shorter than one sampling interval: the
  index is then \<open>-1\<close>, the slice \<open>lines[equil_index + non_data_lines:]\<close> starts at the
  last header line, and the file written holds that header line twice. For the example
  window (\<open>equil_time = 0\<close>, one header line) the output is the header followed by the
  whole input file, where the claim gives the input file itself.
\<close>

theorem equilibrated_file_at_time_zero:
  "equil_index example_win = Inr (- 1)
   \<and> snd (write_equilibrated_data ''lambda_0.000/run_01/simfile.dat''
             ''lambda_0.000/run_01/simfile_equilibrated.dat'' (- 1) example_files)
        ''lambda_0.000/run_01/simfile_equilibrated.dat''
      = Some (hd example_simfile # example_simfile)
   \<and> equilibrated_region example_simfile (- 1) = example_simfile
   \<and> hd example_simfile # example_simfile \<noteq> equilibrated_region example_simfile (- 1)"
  by (simp add: equil_index_def example_win_def example_sim_def err_bind_def py_index_def
        py_int_def write_equilibrated_data_def example_files_def example_simfile_def
        non_data_lines_def startswith_def py_slice_from_def equilibrated_region_def)

section \<open>calculate\_optimal\_lam\_vals: the arguments\<close>




section \<open>calculate\_optimal\_lam\_vals: the values returned\<close>

text \<open>
  Claim C5, amended. For well-formed gradient data (at least two windows, strictly
  increasing lambda values, non-negative errors), either error type and either SEM
  origin, and every \<open>k \<ge> 2\<close>, \<open>calculate_optimal_lam_vals(n_lam_vals=k)\<close> returns
  exactly \<open>k\<close> values in non-decreasing order, the last of which is the last input
  lambda value rounded to 3 decimal places; the first is the first input lambda value
  rounded to 3 decimal places provided the integrated error over the first lambda
  interval is positive.
\<close>

theorem calculate_optimal_lam_vals_count:
  assumes wf: "gd_wf gd"
    and er: "er_type = ''sem'' \<or> er_type = ''root_var''"
    and orig: "sem_origin = ''inter'' \<or> sem_origin = ''intra''"
    and k: "2 \<le> k"
  shows "\<exists>errs vals.
           get_integrated_error gd er_type sem_origin smoothen_sems = Inr errs
         \<and> calculate_optimal_lam_vals gd er_type None (Some k) sem_origin smoothen_sems = Inr vals
         \<and> length vals = nat k
         \<and> sorted vals
         \<and> last vals = py_round (last (gd_lam_vals gd)) 3
         \<and> (0 < errs ! 1 \<longrightarrow> hd vals = py_round (hd (gd_lam_vals gd)) 3)"
proof -
  let ?lam = "gd_lam_vals gd"
  let ?n = "n_lam gd"
  have n2: "2 \<le> ?n" and ll: "length ?lam = ?n" and sl: "sorted_wrt (<) ?lam"
    using wf by (simp_all add: gd_wf_def)
  obtain y where y: "length y = ?n" "\<forall>v \<in> set y. 0 \<le> v"
    and ie: "get_integrated_error gd er_type sem_origin smoothen_sems
               = Inr (map (\<lambda>i. \<Sum>j<i. (?lam ! (j + 1) - ?lam ! j) * (y ! (j + 1) + y ! j) / 2)
                          [0..<?n])"
    using get_integrated_error_wf [OF wf er orig] by blast
  define errs where
    "errs = map (\<lambda>i. \<Sum>j<i. (?lam ! (j + 1) - ?lam ! j) * (y ! (j + 1) + y ! j) / 2) [0..<?n]"
  have ie': "get_integrated_error gd er_type sem_origin smoothen_sems = Inr errs"
    using ie by (simp add: errs_def)
  have le: "length errs = ?n" by (simp add: errs_def)
  have ne: "errs \<noteq> []" using le n2 by auto
  have se: "sorted errs"
    unfolding errs_def using integrated_errors_sorted [of y ?lam] y ll sl by simp
  have e0: "errs ! 0 = 0" using n2 by (simp add: errs_def)
  have hd0: "hd errs = 0" using ne e0 by (simp add: hd_conv_nth)
  define T where "T = last errs"
  have T0: "0 \<le> T"
  proof -
    have "errs ! 0 \<le> errs ! (length errs - 1)"
      using se ne by (intro sorted_nth_mono) simp_all
    then show ?thesis using e0 ne by (simp add: T_def last_conv_nth)
  qed
  have pl: "py_last errs = Inr T" using ne by (simp add: py_last_def T_def)
  obtain ts where ts: "np_linspace 0 T k = Inr (0 # ts)" "length (0 # ts) = nat k"
    "sorted (0 # ts)" "last (0 # ts) = T" "\<forall>t \<in> set (0 # ts). 0 \<le> t \<and> t \<le> T"
    using np_linspace_from_zero [OF k T0] by blast
  let ?pts = "zip errs ?lam"
  let ?f = "\<lambda>t. py_round (interp_scan t ?pts) 3"
  have lam_ne: "?lam \<noteq> []" using ll n2 by auto
  obtain p ps where pts: "?pts = p # ps"
    using ne lam_ne by (cases errs; cases ?lam) auto
  have fstp: "fst p = 0"
  proof -
    have "fst (?pts ! 0) = errs ! 0" using ne lam_ne by (simp add: )
    then show ?thesis using pts e0 by simp
  qed
  have sndp: "snd p = hd ?lam"
  proof -
    have "snd (?pts ! 0) = ?lam ! 0" using ne lam_ne by simp
    then show ?thesis using pts lam_ne by (simp add: hd_conv_nth)
  qed
  have mf: "map fst ?pts = errs" using le ll by (simp add: )
  have ms: "map snd ?pts = ?lam" using le ll by (simp add: )
  have sf: "sorted (map fst (p # ps))" using se mf pts by simp
  have ss: "sorted (map snd (p # ps))"
    using sl ms pts by (metis sorted_wrt_mono_rel less_imp_le)
  have interp: "np_interp t errs ?lam = Inr (interp_scan t ?pts)"
    if "0 \<le> t" "t \<le> T" for t
    using that ne le ll hd0 by (simp add: np_interp_def T_def)
  have step: "err_bind (np_interp t errs ?lam) (\<lambda>v. Inr (py_round v 3)) = Inr (?f t)"
    if "t \<in> set (0 # ts)" for t
  proof -
    have "0 \<le> t" "t \<le> T" using that ts(5) by blast+
    then have "np_interp t errs ?lam = Inr (interp_scan t ?pts)" by (rule interp)
    then show ?thesis by (simp add: err_bind_def)
  qed
  have loop: "collect (map (\<lambda>t. err_bind (np_interp t errs ?lam) (\<lambda>v. Inr (py_round v 3)))
                (0 # ts)) = Inr (map ?f (0 # ts))"
    by (rule collect_all_Inr) (rule step)
  have res: "calculate_optimal_lam_vals gd er_type None (Some k) sem_origin smoothen_sems
               = Inr (map ?f (0 # ts))"
    unfolding calculate_optimal_lam_vals_def using ie' pl ts(1) loop
    by (simp add: err_bind_def)
  have mono: "?f a \<le> ?f b" if "a \<in> set (0 # ts)" "a \<le> b" for a b
  proof -
    obtain x0 y0 where p: "p = (x0, y0)" by (cases p)
    have "0 \<le> a" using that(1) ts(5) by blast
    then have "x0 \<le> a" using fstp p by simp
    then have "interp_scan a ((x0, y0) # ps) \<le> interp_scan b ((x0, y0) # ps)"
      using sf ss that(2) unfolding p by (intro interp_scan_mono)
    then show ?thesis using pts p by (simp add: py_round_mono)
  qed
  have sorted_vals: "sorted (map ?f (0 # ts))"
    using ts(3) mono by (intro sorted_map_mono_on) blast+
  have last_vals: "last (map ?f (0 # ts)) = py_round (last ?lam) 3"
  proof -
    have "last (map ?f (0 # ts)) = ?f (last (0 # ts))" by (simp add: last_map)
    also have "\<dots> = ?f T" using ts(4) by simp
    also have "interp_scan T ?pts = snd (last (p # ps))"
    proof -
      have "last ?pts = (last errs, last ?lam)"
        using ne le ll by (intro last_zip_same_length) simp_all
      then have "fst (last (p # ps)) \<le> T" using pts by (simp add: T_def)
      with sf show ?thesis unfolding pts by (rule interp_scan_last)
    qed
    also have "snd (last (p # ps)) = last ?lam"
    proof -
      have "last ?pts = (last errs, last ?lam)"
        using ne le ll by (intro last_zip_same_length) simp_all
      then show ?thesis using pts by simp
    qed
    finally show ?thesis .
  qed
  have hd_vals: "hd (map ?f (0 # ts)) = py_round (hd ?lam) 3" if pos: "0 < errs ! 1"
  proof -
    obtain q qs where ps: "ps = q # qs"
    proof (cases ps)
      case Nil
      then have "length ?pts = 1" using pts by simp
      then show ?thesis using le ll n2 by simp
    next
      case (Cons q qs) then show ?thesis using that by blast
    qed
    have "fst (?pts ! 1) = errs ! 1" using le ll n2 by simp
    then have fq: "fst q = errs ! 1" using pts ps by simp
    obtain x0 y0 x1 y1 where pq: "p = (x0, y0)" "q = (x1, y1)" by (cases p, cases q)
    have x0: "x0 = 0" and y0: "y0 = hd ?lam" using fstp sndp pq by simp_all
    have "x0 < x1" using fstp fq pos pq by simp
    then have "interp_scan x0 ((x0, y0) # (x1, y1) # qs) = y0" by (rule interp_scan_first)
    moreover have "?pts = (x0, y0) # (x1, y1) # qs" using pts ps pq by simp
    ultimately have "interp_scan 0 ?pts = hd ?lam" using x0 y0 by (simp only:)
    then show ?thesis by simp
  qed
  show ?thesis
    using ie' res ts(2) sorted_vals last_vals hd_vals
    by (intro exI [of _ errs] exI [of _ "map ?f (0 # ts)"]) simp
qed

theorem calculate_optimal_lam_vals_count_witness:
  "gd_wf example_gd \<and> (2 :: int) \<le> 3
   \<and> get_integrated_error example_gd ''sem'' ''inter'' True = Inr [0, 14 / 3, 65 / 6]
   \<and> calculate_optimal_lam_vals example_gd ''sem'' None (Some 3) ''inter'' True
       = Inr [0, 561 / 1000, 1]
   \<and> length [0, 561 / 1000, 1 :: real] = nat 3
   \<and> sorted [0, 561 / 1000, 1 :: real]
   \<and> last [0, 561 / 1000, 1] = py_round (last (gd_lam_vals example_gd)) 3
   \<and> (0 :: real) < [0, 14 / 3, 65 / 6] ! 1
   \<and> hd [0, 561 / 1000, 1] = py_round (hd (gd_lam_vals example_gd)) 3"
  using calculate_optimal_lam_vals_count [of example_gd "''sem''" "''inter''" 3 True]
  by (simp add: get_integrated_error_def get_sems_def example_gd_def np_sqrt_def
        np_broadcast2_def err_bind_def smooth_sem_def py_index_def upt_rec np_trapz_def
        np_diff_def calculate_optimal_lam_vals_def py_last_def n_lam_vals_from_delta_def
        py_int_def np_linspace_def np_interp_def py_round_def round_half_even_def gd_wf_def)

text \<open>
  Claim C5 as stated fails in two ways. With \<open>k = 1\<close> the single value returned is the
  first lambda value, not the last. With data whose errors are all zero the integrated
  error curve is flat, every target is interpolated to the last lambda value, and the
  first value returned is not the first lambda value.
\<close>

theorem calculate_optimal_lam_vals_count_counterexample:
  "sorted_wrt (<) (gd_lam_vals example_gd)
   \<and> calculate_optimal_lam_vals example_gd ''sem'' None (Some 1) ''inter'' True = Inr [0]
   \<and> last [0 :: real] \<noteq> last (gd_lam_vals example_gd)
   \<and> sorted_wrt (<) (gd_lam_vals example_gd_flat)
   \<and> calculate_optimal_lam_vals example_gd_flat ''sem'' None (Some 3) ''inter'' True
       = Inr [1, 1, 1]
   \<and> hd [1, 1, 1 :: real] \<noteq> hd (gd_lam_vals example_gd_flat)"
  by (simp add: get_integrated_error_def get_sems_def example_gd_def np_sqrt_def
        np_broadcast2_def err_bind_def smooth_sem_def py_index_def upt_rec np_trapz_def
        np_diff_def calculate_optimal_lam_vals_def py_last_def n_lam_vals_from_delta_def
        py_int_def np_linspace_def np_interp_def py_round_def round_half_even_def example_gd_flat_def)

section \<open>get\_predicted\_overlap\_mat\<close>

text \<open>
  Claim C6, amended. For well-formed gradient data with positive intra-run variances, a
  positive gas constant and a positive temperature, \<open>get_predicted_overlap_mat\<close> returns
  the row-normalisation of a symmetric matrix: the matrix after mirroring is symmetric,
  every row of the result is that matrix's row divided by its sum, and every row of the
  result sums to exactly 1. (The result itself is in general not symmetric.)
\<close>

theorem predicted_overlap_mat_rows:
  assumes wf: "gd_wf gd" and pos: "list_all (\<lambda>v. 0 < v) (vars_intra gd)"
    and R: "0 < R" and T: "0 < temperature"
  shows "\<exists>upper mat.
           upper_triangle gd (4.184 * 1000 / (R * temperature)) = Inr upper
         \<and> get_predicted_overlap_mat R gd temperature = Inr mat
         \<and> mat = map (\<lambda>row. map (\<lambda>v. v / sum_list row) row) (mirror (n_lam gd) upper)
         \<and> (\<forall>i<n_lam gd. \<forall>j<n_lam gd.
               mirror (n_lam gd) upper ! i ! j = mirror (n_lam gd) upper ! j ! i)
         \<and> length mat = n_lam gd
         \<and> (\<forall>row \<in> set mat. length row = n_lam gd \<and> sum_list row = 1)"
proof -
  let ?n = "n_lam gd"
  let ?beta = "4.184 * 1000 / (R * temperature)"
  let ?f = "\<lambda>row :: real list. map (\<lambda>v. v / sum_list row) row"
  have n2: "2 \<le> ?n" and ll: "length (gd_lam_vals gd) = ?n" and lv: "length (vars_intra gd) = ?n"
    and sl: "sorted_wrt (<) (gd_lam_vals gd)"
    using wf by (simp_all add: gd_wf_def)
  have RT: "0 < R * temperature" using R T by simp
  then have beta: "0 < ?beta" by simp
  obtain upper where up: "upper_triangle gd ?beta = Inr upper" "length upper = ?n"
    and ent: "\<forall>b<?n. length (upper ! b) = ?n
                 \<and> (\<forall>j<?n. (j < b \<longrightarrow> upper ! b ! j = 0) \<and> (b \<le> j \<longrightarrow> 0 < upper ! b ! j))"
    using upper_triangle_ok [OF ll lv sl pos beta] by blast
  let ?m = "mirror ?n upper"
  have ent': "\<forall>b<?n. \<forall>j<?n. (j < b \<longrightarrow> upper ! b ! j = 0) \<and> (b \<le> j \<longrightarrow> 0 < upper ! b ! j)"
    using ent by blast
  have rows: "row \<noteq> [] \<and> length row = ?n \<and> (\<forall>v \<in> set row. 0 < v)" if "row \<in> set ?m" for row
  proof -
    have "\<exists>i<length ?m. ?m ! i = row" using that by (simp only: in_set_conv_nth)
    then obtain i where i: "i < ?n" "row = ?m ! i"
      unfolding mirror_length by blast
    have "length row = ?n" using i by (simp add: mirror_row)
    moreover have "\<forall>v \<in> set row. 0 < v"
      unfolding i(2) using ent' i(1) by (rule mirror_positive)
    ultimately show ?thesis using n2 by auto
  qed
  have norm: "collect (map normalise_row ?m) = Inr (map ?f ?m)"
  proof (rule collect_all_Inr)
    fix row assume "row \<in> set ?m"
    then have "row \<noteq> []" "\<forall>v \<in> set row. 0 < v" using rows by blast+
    then show "normalise_row row = Inr (?f row)" by (rule normalise_row_ok(1))
  qed
  have res: "get_predicted_overlap_mat R gd temperature = Inr (map ?f ?m)"
  proof -
    have nz: "R * temperature \<noteq> 0" using RT by (rule less_imp_neq [THEN not_sym])
    have "get_predicted_overlap_mat R gd temperature
            = err_bind (upper_triangle gd ?beta) (\<lambda>upper. collect (map normalise_row (mirror ?n upper)))"
      unfolding get_predicted_overlap_mat_def Let_def using nz by (simp only: if_False)
    also have "\<dots> = collect (map normalise_row ?m)"
      unfolding up(1) err_bind_def by (simp only: sum.case)
    finally show ?thesis unfolding norm .
  qed
  have sums: "\<forall>row \<in> set (map ?f ?m). length row = ?n \<and> sum_list row = 1"
  proof
    fix r assume "r \<in> set (map ?f ?m)"
    then obtain row where row: "row \<in> set ?m" "r = ?f row" by auto
    have "row \<noteq> []" "\<forall>v \<in> set row. 0 < v" "length row = ?n" using rows [OF row(1)] by blast+
    then show "length r = ?n \<and> sum_list r = 1"
      using normalise_row_ok(2) [of row] row(2) by simp
  qed
  have sym: "\<forall>i<?n. \<forall>j<?n. ?m ! i ! j = ?m ! j ! i"
    by (simp add: mirror_symmetric)
  have len: "length (map ?f ?m) = ?n" by (simp only: length_map mirror_length)
  show ?thesis
    using up(1) res sym sums len
    by (intro exI [of _ upper] exI [of _ "map ?f ?m"] conjI) (rule refl | assumption)+
qed

theorem predicted_overlap_mat_rows_witness:
  "gd_wf example_gd
   \<and> list_all (\<lambda>v. 0 < v) (vars_intra example_gd)
   \<and> (0 :: real) < 8.314462618 \<and> (0 :: real) < 298
   \<and> \<not> isl (get_predicted_overlap_mat 8.314462618 example_gd 298)
   \<and> length (projr (get_predicted_overlap_mat 8.314462618 example_gd 298)) = 3
   \<and> sum_list (projr (get_predicted_overlap_mat 8.314462618 example_gd 298) ! 0) = 1
   \<and> sum_list (projr (get_predicted_overlap_mat 8.314462618 example_gd 298) ! 1) = 1
   \<and> sum_list (projr (get_predicted_overlap_mat 8.314462618 example_gd 298) ! 2) = 1"
proof -
  have h1: "gd_wf example_gd" by (simp add: gd_wf_def example_gd_def)
  have h2: "list_all (\<lambda>v. 0 < v) (vars_intra example_gd)" by (simp add: example_gd_def)
  have h3: "(0 :: real) < 8.314462618" by simp
  have h4: "(0 :: real) < 298" by simp
  have n: "n_lam example_gd = 3" by (simp add: example_gd_def)
  obtain mat where mat: "get_predicted_overlap_mat 8.314462618 example_gd 298 = Inr mat"
    "length mat = 3" "\<forall>row \<in> set mat. length row = 3 \<and> sum_list row = 1"
    using predicted_overlap_mat_rows [OF h1 h2 h3 h4] unfolding n by blast
  have "mat ! 0 \<in> set mat" "mat ! 1 \<in> set mat" "mat ! 2 \<in> set mat"
    using mat(2) by simp_all
  then have "sum_list (mat ! 0) = 1" "sum_list (mat ! 1) = 1" "sum_list (mat ! 2) = 1"
    using mat(3) by blast+
  then show ?thesis using h1 h2 mat(1,2) by simp
qed

text \<open>
  Claim C6 as stated fails on symmetry: for three windows at lambda 0, 0.5 and 1 with
  intra-run variance 1 each, at 298 K, the rows have different sums before the
  normalisation, and the entries (0, 1) and (1, 0) of the result differ.
\<close>

theorem predicted_overlap_mat_asymmetric_counterexample:
  "list_all (\<lambda>v. 0 < v) (vars_intra example_gd)
   \<and> sorted_wrt (<) (gd_lam_vals example_gd)
   \<and> \<not> isl (get_predicted_overlap_mat 8.314462618 example_gd 298)
   \<and> projr (get_predicted_overlap_mat 8.314462618 example_gd 298) ! 0 ! 1
       \<noteq> projr (get_predicted_overlap_mat 8.314462618 example_gd 298) ! 1 ! 0"
proof -
  define beta :: real where "beta = 4.184 * 1000 / (8.314462618 * 298)"
  have b: "0 < beta" by (simp add: beta_def)
  have up: "upper_triangle example_gd beta
     = Inr [[1, 2 / beta, 4 / (beta * beta)], [0, 1, 2 / beta], [0, 0, 1]]"
    using b by (rule example_upper)
  have n: "n_lam example_gd = 3" by (simp add: example_gd_def)
  have s0: "0 < 1 + 2 / beta + 4 / (beta * beta)" using b by (simp add: add_pos_pos)
  have s1: "0 < 2 / beta + 1 + 2 / beta" using b by (simp add: add_pos_pos)
  have s2: "0 < 4 / (beta * beta) + 2 / beta + 1" using b by (simp add: add_pos_pos)
  have "get_predicted_overlap_mat 8.314462618 example_gd 298
          = err_bind (upper_triangle example_gd beta)
              (\<lambda>upper. collect (map normalise_row (mirror (n_lam example_gd) upper)))"
    by (simp add: get_predicted_overlap_mat_def beta_def)
  also have "\<dots> = collect (map normalise_row
       [[1, 2 / beta, 4 / (beta * beta)], [2 / beta, 1, 2 / beta], [4 / (beta * beta), 2 / beta, 1]])"
    unfolding up n by (simp add: err_bind_def mirror_def upt_rec numeral_3_eq_3 numeral_2_eq_2)
  also have "\<dots> = Inr
       [map (\<lambda>v. v / (1 + 2 / beta + 4 / (beta * beta))) [1, 2 / beta, 4 / (beta * beta)],
        map (\<lambda>v. v / (2 / beta + 1 + 2 / beta)) [2 / beta, 1, 2 / beta],
        map (\<lambda>v. v / (4 / (beta * beta) + 2 / beta + 1)) [4 / (beta * beta), 2 / beta, 1]]"
    using s0 s1 s2 by (simp add: normalise_row_def add.assoc)
  finally have res: "get_predicted_overlap_mat 8.314462618 example_gd 298 = Inr
       [map (\<lambda>v. v / (1 + 2 / beta + 4 / (beta * beta))) [1, 2 / beta, 4 / (beta * beta)],
        map (\<lambda>v. v / (2 / beta + 1 + 2 / beta)) [2 / beta, 1, 2 / beta],
        map (\<lambda>v. v / (4 / (beta * beta) + 2 / beta + 1)) [4 / (beta * beta), 2 / beta, 1]]" .
  have ne: "(2 / beta) / (1 + 2 / beta + 4 / (beta * beta)) \<noteq> (2 / beta) / (2 / beta + 1 + 2 / beta)"
  proof
    assume "(2 / beta) / (1 + 2 / beta + 4 / (beta * beta)) = (2 / beta) / (2 / beta + 1 + 2 / beta)"
    then have "1 + 2 / beta + 4 / (beta * beta) = 2 / beta + 1 + 2 / beta"
      using b s0 s1 by (simp add: frac_eq_eq field_simps)
    then have "4 / (beta * beta) = 2 / beta" by simp
    then have "beta = 2" using b by (simp add: field_simps)
    then show False by (simp add: beta_def)
  qed
  show ?thesis
    unfolding res using ne by (simp add: example_gd_def)
qed

end
